theory Spec2Isabelle
  imports Main
begin

section \<open>Data model of the flow package\<close>

text \<open>
  Nodes are heap objects that the caller creates with \<open>NewNode\<close> and shares with the
  workflow through pointers (\<^verbatim>\<open>*node\<close>).  The edge-construction calls mutate them in
  place, so the model keeps an explicit store from addresses to node values.  A pointer
  that may be \<^verbatim>\<open>nil\<close> (\<open>root\<close>, \<open>aggregateNode\<close>) is an \<open>addr option\<close>.

  A byte slice is a list of 8-bit characters; \<^verbatim>\<open>nil\<close> and the empty slice are both \<open>[]\<close>
  (the package never compares a slice with \<^verbatim>\<open>nil\<close>).
\<close>

type_synonym addr = nat
type_synonym bytes = string

text \<open>
  The values of Go's \<^verbatim>\<open>error\<close> that occur: one constructor for each message the package
  creates, and \<open>ActionError\<close> for whatever error a user-supplied action returns.
  \<^item> \<open>NotRegistered\<close>: "one or more nodes are not registered, use AddNode() to register the node"
  \<^item> \<open>CircularDetection f t\<close>: "circular detection from 'f' to 't'"
  \<^item> \<open>CircularReference\<close>: "circular reference detected"
  \<^item> \<open>UseAddParallelEdge\<close>: "use AddParallelEdge() to use parallel node"
\<close>

datatype error =
    NotRegistered
  | CircularDetection string string
  | CircularReference
  | UseAddParallelEdge
  | ActionError string

text \<open>The error kinds by which the specification groups these messages.\<close>

datatype error_kind = ValidationError | CycleError | StructuralError | ExecutionError

fun kind_of :: "error \<Rightarrow> error_kind" where
  "kind_of NotRegistered = ValidationError"
| "kind_of (CircularDetection f t) = CycleError"
| "kind_of CircularReference = CycleError"
| "kind_of UseAddParallelEdge = StructuralError"
| "kind_of (ActionError m) = ExecutionError"

text \<open>
  \<^verbatim>\<open>action func(param map[string][]byte) ([]byte, error)\<close>: an action returns both a
  result and an error.  Actions are taken to be pure and total functions.
\<close>

type_synonym action = "(string \<rightharpoonup> bytes) \<Rightarrow> bytes \<times> error option"

record node =
  key :: string
  isTrueNode :: bool
  isFalseNode :: bool
  isConditionalNode :: bool
  isParallelNode :: bool
  action :: action
  aggregateNode :: "addr option"
  next_nodes :: "addr list"

type_synonym heap = "addr \<Rightarrow> node"

record vertex =
  v_from :: addr
  v_to :: addr
  v_label :: string

text \<open>
  \<open>cLock\<close> is the state of the mutex \<^verbatim>\<open>*sync.Mutex\<close>: \<open>True\<close> while it is held.
\<close>

record workflow =
  wkey :: string
  cLock :: bool
  root :: "addr option"
  availableNodes :: "string \<rightharpoonup> addr"
  nodes :: "string \<rightharpoonup> (string \<rightharpoonup> vertex)"
  destinations :: "string \<rightharpoonup> addr list"

definition NewNode :: "string \<Rightarrow> action \<Rightarrow> node" where
  "NewNode k param =
     \<lparr>key = k, isTrueNode = False, isFalseNode = False, isConditionalNode = False,
      isParallelNode = False, action = param, aggregateNode = None, next_nodes = []\<rparr>"

definition NewWorkflow :: "string \<Rightarrow> workflow" where
  "NewWorkflow name =
     \<lparr>wkey = name, cLock = False, root = None, availableNodes = Map.empty,
      nodes = Map.empty, destinations = Map.empty\<rparr>"

definition Trigger :: "heap \<Rightarrow> addr \<Rightarrow> (string \<rightharpoonup> bytes) \<Rightarrow> bytes \<times> error option" where
  "Trigger h n param = action (h n) param"

section \<open>Graph construction\<close>

fun AddNode :: "heap \<Rightarrow> workflow \<Rightarrow> addr list \<Rightarrow> workflow" where
  "AddNode h w [] = w"
| "AddNode h w (n # ns) =
     AddNode h (w\<lparr>availableNodes := (availableNodes w)(key (h n) \<mapsto> n)\<rparr>) ns"

definition assignRoot :: "workflow \<Rightarrow> addr \<Rightarrow> workflow" where
  "assignRoot w n = (if root w = None then w\<lparr>root := Some n\<rparr> else w)"

fun validateNode :: "heap \<Rightarrow> workflow \<Rightarrow> addr list \<Rightarrow> bool" where
  "validateNode h w [] = True"
| "validateNode h w (n # ns) =
     (case availableNodes w (key (h n)) of
        None \<Rightarrow> False
      | Some _ \<Rightarrow> validateNode h w ns)"

text \<open>The loop of \<open>isCircular\<close> over the recorded predecessors of \<open>to\<close>.\<close>

fun searchFroms :: "heap \<Rightarrow> addr list \<Rightarrow> addr \<Rightarrow> addr \<Rightarrow> error option" where
  "searchFroms h [] to_n from_n = None"
| "searchFroms h (n # froms) to_n from_n =
     (if key (h n) = key (h from_n)
      then Some (CircularDetection (key (h from_n)) (key (h to_n)))
      else searchFroms h froms to_n from_n)"

definition isCircular :: "heap \<Rightarrow> workflow \<Rightarrow> addr \<Rightarrow> addr \<Rightarrow> error option" where
  "isCircular h w to_n from_n =
     (case root w of
        Some r \<Rightarrow>
          if key (h to_n) = key (h r)
          then Some (CircularDetection (key (h from_n)) (key (h r)))
          else (case destinations w (key (h to_n)) of
                  None \<Rightarrow> None
                | Some froms \<Rightarrow> searchFroms h froms to_n from_n)
      | None \<Rightarrow>
          (case destinations w (key (h to_n)) of
             None \<Rightarrow> None
           | Some froms \<Rightarrow> searchFroms h froms to_n from_n))"

text \<open>
  \<^verbatim>\<open>append(w.destinations[k], n)\<close>: a missing key reads as the \<^verbatim>\<open>nil\<close> slice.
\<close>

definition appendDest :: "(string \<rightharpoonup> addr list) \<Rightarrow> string \<Rightarrow> addr \<Rightarrow> (string \<rightharpoonup> addr list)" where
  "appendDest d k n = d(k \<mapsto> (case d k of None \<Rightarrow> [] | Some xs \<Rightarrow> xs) @ [n])"

text \<open>
  An edge-construction call either returns (\<open>Some\<close>: the returned error, the store and
  the workflow after the call) or never returns (\<open>None\<close>): \<^verbatim>\<open>w.cLock.Lock()\<close> on a mutex
  that is already held blocks for ever, because no other code releases it.  Node
  arguments are non-\<^verbatim>\<open>nil\<close> pointers.
\<close>

type_synonym call_result = "(error option \<times> heap \<times> workflow) option"

definition AddEdge :: "heap \<Rightarrow> workflow \<Rightarrow> addr \<Rightarrow> addr \<Rightarrow> call_result" where
  "AddEdge h w from_n to_n =
     (if \<not> validateNode h w [from_n, to_n] then Some (Some NotRegistered, h, w)
      else case isCircular h w to_n from_n of
        Some e \<Rightarrow> Some (Some e, h, w)
      | None \<Rightarrow>
        if key (h from_n) = key (h to_n) then Some (Some CircularReference, h, w)
        else
          let w1 = assignRoot w from_n in
          if cLock w1 then None
          else
            let w2 = w1\<lparr>cLock := True\<rparr> in
            (case nodes w2 (key (h from_n)) of
               Some _ \<Rightarrow> Some (Some UseAddParallelEdge, h, w2)
             | None \<Rightarrow>
               let h1 = h(from_n := (h from_n)\<lparr>next_nodes := next_nodes (h from_n) @ [to_n]\<rparr>);
                   w3 = w2\<lparr>nodes := (nodes w2)(key (h1 from_n) \<mapsto>
                              [key (h1 to_n) \<mapsto> \<lparr>v_from = from_n, v_to = to_n, v_label = []\<rparr>])\<rparr>;
                   w4 = w3\<lparr>destinations := appendDest (destinations w3) (key (h1 to_n)) from_n\<rparr>
               in Some (None, h1, w4\<lparr>cLock := False\<rparr>)))"

text \<open>
  The statements of one iteration of the loop over \<open>parallels\<close> in \<open>AddParallelEdge\<close>
  that follow its two cycle checks.
  \<^verbatim>\<open>if len(w.nodes[from.key]) == 0 { w.nodes[from.key] = make(...) }\<close> followed by the
  insertion reads a missing group as the empty one.
\<close>

definition linkParallel :: "heap \<Rightarrow> workflow \<Rightarrow> addr \<Rightarrow> addr \<Rightarrow> addr \<Rightarrow> workflow" where
  "linkParallel h w from_n aggregate n =
     (let grp = (case nodes w (key (h from_n)) of None \<Rightarrow> Map.empty | Some m \<Rightarrow> m);
          w1 = w\<lparr>nodes := (nodes w)(key (h from_n) \<mapsto>
                     grp(key (h n) \<mapsto> \<lparr>v_from = from_n, v_to = n, v_label = []\<rparr>))\<rparr>;
          w2 = w1\<lparr>nodes := (nodes w1)(key (h n) \<mapsto>
                     [key (h aggregate) \<mapsto> \<lparr>v_from = n, v_to = aggregate, v_label = []\<rparr>])\<rparr>;
          w3 = w2\<lparr>destinations := appendDest (destinations w2) (key (h n)) from_n\<rparr>
      in w3\<lparr>destinations := appendDest (destinations w3) (key (h aggregate)) n\<rparr>)"

text \<open>
  The loop over \<open>parallels\<close>.  It reads the store only for keys and returns the error
  of the iteration that stopped it, with the workflow as mutated so far.
\<close>

fun parallelLoop :: "heap \<Rightarrow> workflow \<Rightarrow> addr \<Rightarrow> addr \<Rightarrow> addr list \<Rightarrow> error option \<times> workflow" where
  "parallelLoop h w from_n aggregate [] = (None, w)"
| "parallelLoop h w from_n aggregate (n # ns) =
     (case isCircular h w n from_n of
        Some e \<Rightarrow> (Some e, w)
      | None \<Rightarrow>
        (case isCircular h w aggregate n of
           Some e \<Rightarrow> (Some e, w)
         | None \<Rightarrow> parallelLoop h (linkParallel h w from_n aggregate n) from_n aggregate ns))"

definition AddParallelEdge :: "heap \<Rightarrow> workflow \<Rightarrow> addr \<Rightarrow> addr \<Rightarrow> addr list \<Rightarrow> call_result" where
  "AddParallelEdge h w from_n aggregate parallels =
     (if \<not> validateNode h w [from_n, aggregate] then Some (Some NotRegistered, h, w)
      else if \<not> validateNode h w parallels then Some (Some NotRegistered, h, w)
      else case isCircular h w aggregate from_n of
        Some e \<Rightarrow> Some (Some e, h, w)
      | None \<Rightarrow>
        let w1 = assignRoot w from_n in
        if cLock w1 then None
        else
          let w2 = w1\<lparr>cLock := True\<rparr>;
              h1 = h(from_n := (h from_n)\<lparr>isParallelNode := True\<rparr>)
          in (case parallelLoop h1 w2 from_n aggregate parallels of
                (Some e, w3) \<Rightarrow> Some (Some e, h1, w3)
              | (None, w3) \<Rightarrow>
                let h2 = h1(from_n := (h1 from_n)\<lparr>next_nodes := parallels\<rparr>);
                    h3 = h2(from_n := (h2 from_n)\<lparr>aggregateNode := Some aggregate\<rparr>);
                    w4 = w3\<lparr>destinations :=
                              appendDest (destinations w3) (key (h3 aggregate)) from_n\<rparr>
                in Some (None, h3, w4\<lparr>cLock := False\<rparr>)))"

definition AddConditionalEdge ::
  "heap \<Rightarrow> workflow \<Rightarrow> addr \<Rightarrow> addr \<Rightarrow> addr \<Rightarrow> addr \<Rightarrow> call_result" where
  "AddConditionalEdge h w from_n condition trueNode falseNode =
     (if \<not> validateNode h w [from_n, condition, trueNode, falseNode]
      then Some (Some NotRegistered, h, w)
      else case isCircular h w trueNode from_n of
        Some e \<Rightarrow> Some (Some e, h, w)
      | None \<Rightarrow>
      (case isCircular h w falseNode from_n of
        Some e \<Rightarrow> Some (Some e, h, w)
      | None \<Rightarrow>
      (case isCircular h w condition from_n of
        Some e \<Rightarrow> Some (Some e, h, w)
      | None \<Rightarrow>
        let w1 = assignRoot w from_n in
        if cLock w1 then None
        else
          let w2 = w1\<lparr>cLock := True\<rparr>;
              h1 = h(condition := (h condition)\<lparr>isConditionalNode := True\<rparr>);
              h2 = h1(from_n := (h1 from_n)\<lparr>next_nodes := next_nodes (h1 from_n) @ [condition]\<rparr>);
              h3 = h2(trueNode := (h2 trueNode)\<lparr>isTrueNode := True\<rparr>);
              h4 = h3(falseNode := (h3 falseNode)\<lparr>isFalseNode := True\<rparr>);
              h5 = h4(condition := (h4 condition)\<lparr>next_nodes := [trueNode, falseNode]\<rparr>);
              w3 = w2\<lparr>nodes := (nodes w2)(key (h5 from_n) \<mapsto>
                         [key (h5 condition) \<mapsto>
                            \<lparr>v_from = from_n, v_to = condition, v_label = []\<rparr>])\<rparr>;
              w4 = w3\<lparr>nodes := (nodes w3)(key (h5 condition) \<mapsto>
                         [key (h5 trueNode) \<mapsto>
                            \<lparr>v_from = condition, v_to = trueNode, v_label = ''true''\<rparr>])\<rparr>;
              w5 = w4\<lparr>destinations := appendDest (destinations w4) (key (h5 trueNode)) from_n\<rparr>;
              grp = (case nodes w5 (key (h5 condition)) of None \<Rightarrow> Map.empty | Some m \<Rightarrow> m);
              w6 = w5\<lparr>nodes := (nodes w5)(key (h5 condition) \<mapsto>
                         grp(key (h5 falseNode) \<mapsto>
                            \<lparr>v_from = condition, v_to = falseNode, v_label = ''false''\<rparr>))\<rparr>;
              w7 = w6\<lparr>destinations := appendDest (destinations w6) (key (h5 falseNode)) from_n\<rparr>
          in Some (None, h5, w7\<lparr>cLock := False\<rparr>))))"

text \<open>
  A caller's sequence of construction calls.  Each call's returned error is recorded;
  the caller may go on after an error.  The sequence has no result once a call blocks.
\<close>

datatype op =
    OpAddNode "addr list"
  | OpAddEdge addr addr
  | OpAddConditionalEdge addr addr addr addr
  | OpAddParallelEdge addr addr "addr list"

fun apply_op :: "heap \<Rightarrow> workflow \<Rightarrow> op \<Rightarrow> call_result" where
  "apply_op h w (OpAddNode ns) = Some (None, h, AddNode h w ns)"
| "apply_op h w (OpAddEdge f t) = AddEdge h w f t"
| "apply_op h w (OpAddConditionalEdge f c t e) = AddConditionalEdge h w f c t e"
| "apply_op h w (OpAddParallelEdge f a ps) = AddParallelEdge h w f a ps"

fun run :: "heap \<Rightarrow> workflow \<Rightarrow> op list \<Rightarrow> (error option list \<times> heap \<times> workflow) option" where
  "run h w [] = Some ([], h, w)"
| "run h w (c # cs) =
     (case apply_op h w c of
        None \<Rightarrow> None
      | Some (e, h1, w1) \<Rightarrow>
        (case run h1 w1 cs of
           None \<Rightarrow> None
         | Some (es, h2, w2) \<Rightarrow> Some (e # es, h2, w2)))"

text \<open>The \<open>from\<close> argument of an edge-construction call.\<close>

fun from_of :: "op \<Rightarrow> addr option" where
  "from_of (OpAddNode ns) = None"
| "from_of (OpAddEdge f t) = Some f"
| "from_of (OpAddConditionalEdge f c t e) = Some f"
| "from_of (OpAddParallelEdge f a ps) = Some f"

section \<open>Execution\<close>

text \<open>
  \<^verbatim>\<open>strconv.ParseBool\<close> of the Go standard library: it accepts exactly the twelve
  literals below and returns an error (here \<open>None\<close>) for any other string.
\<close>

definition ParseBool :: "string \<Rightarrow> bool option" where
  "ParseBool str =
     (if str \<in> set [''1'', ''t'', ''T'', ''true'', ''TRUE'', ''True''] then Some True
      else if str \<in> set [''0'', ''f'', ''F'', ''false'', ''FALSE'', ''False''] then Some False
      else None)"

datatype panic = NilPointerDereference | IndexOutOfRange

text \<open>
  An execution either returns Go's pair \<^verbatim>\<open>([]byte, error)\<close> or panics.
\<close>

datatype outcome = Returned bytes "error option" | Panicked panic

text \<open>
  The only nondeterminism of an execution is the order in which the branch goroutines
  of a fan-out send on the unbuffered channel \<^verbatim>\<open>result\<close>.  A schedule lists, for each
  fan-out of the execution in turn, that order as a list of branch positions.  An entry
  that is not a permutation of the positions, or a missing entry, stands for the
  positions in order.
\<close>

type_synonym sched = "nat list list"

definition arrival :: "nat \<Rightarrow> nat list \<Rightarrow> nat list" where
  "arrival n ord =
     (if length ord = n \<and> distinct ord \<and> list_all (\<lambda>i. i < n) ord then ord else [0..<n])"

definition next_order :: "nat \<Rightarrow> sched \<Rightarrow> nat list \<times> sched" where
  "next_order n s = (case s of [] \<Rightarrow> ([0..<n], []) | ord # rest \<Rightarrow> (arrival n ord, rest))"

text \<open>
  The receiving loop \<^verbatim>\<open>for _, n := range vertex.next { rAggregate[n.key] = <-result }\<close>:
  the \<open>i\<close>-th key of \<open>vertex.next\<close> is bound to the \<open>i\<close>-th value received.
\<close>

fun collect :: "string list \<Rightarrow> bytes list \<Rightarrow> (string \<rightharpoonup> bytes) \<Rightarrow> (string \<rightharpoonup> bytes)" where
  "collect (k # ks) (r # rs) m = collect ks rs (m(k \<mapsto> r))"
| "collect _ _ m = m"

text \<open>
  The mapping handed to the aggregate: every branch runs its action on \<open>res\<close> and sends
  the result (its error is dropped); the values arrive in the order \<open>ord\<close>.
\<close>

definition aggregateInput :: "heap \<Rightarrow> addr list \<Rightarrow> bytes \<Rightarrow> nat list \<Rightarrow> (string \<rightharpoonup> bytes)" where
  "aggregateInput h branches res ord =
     (let sent = map (\<lambda>n. fst (action (h n) [''data'' \<mapsto> res])) branches;
          received = map (\<lambda>i. sent ! i) ord
      in (collect (map (\<lambda>n. key (h n)) branches) received Map.empty)(''data'' \<mapsto> res))"

text \<open>
  \<open>execute\<close>, \<open>executeParallel\<close> and \<open>executeCondition\<close> recurse along the \<open>next\<close>
  pointers, which may form a cycle, so each call spends one unit of fuel and the
  result is \<open>None\<close> when the fuel runs out.  \<open>executeLoop\<close> is the \<^verbatim>\<open>for k\<close> loop of
  \<open>execute\<close> over the successors that remain, with the running \<open>result\<close> and \<open>err\<close>.
\<close>

function execute :: "nat \<Rightarrow> heap \<Rightarrow> addr \<Rightarrow> bytes \<Rightarrow> sched \<Rightarrow> (outcome \<times> sched) option"
and executeLoop ::
  "nat \<Rightarrow> heap \<Rightarrow> addr list \<Rightarrow> bytes \<Rightarrow> error option \<Rightarrow> sched \<Rightarrow> (outcome \<times> sched) option"
and executeParallel :: "nat \<Rightarrow> heap \<Rightarrow> addr \<Rightarrow> bytes \<Rightarrow> sched \<Rightarrow> (outcome \<times> sched) option"
and executeCondition :: "nat \<Rightarrow> heap \<Rightarrow> addr \<Rightarrow> bytes \<Rightarrow> sched \<Rightarrow> (outcome \<times> sched) option"
where
  "execute 0 h n param s = None"
| "execute (Suc fuel) h n param s =
     (case action (h n) [''data'' \<mapsto> param] of
        (result, err) \<Rightarrow> executeLoop fuel h (next_nodes (h n)) result err s)"
| "executeLoop fuel h [] result err s = Some (Returned result err, s)"
| "executeLoop fuel h (n # ns) result err s =
     (case (if isConditionalNode (h n) then executeCondition fuel h n result s
            else if isParallelNode (h n) then executeParallel fuel h n result s
            else execute fuel h n result s) of
        None \<Rightarrow> None
      | Some (Panicked p, s1) \<Rightarrow> Some (Panicked p, s1)
      | Some (Returned r (Some e), s1) \<Rightarrow> Some (Returned [] (Some e), s1)
      | Some (Returned r None, s1) \<Rightarrow> executeLoop fuel h ns r None s1)"
| "executeParallel 0 h v param s = None"
| "executeParallel (Suc fuel) h v param s =
     (case action (h v) [''data'' \<mapsto> param] of
        (res, Some e) \<Rightarrow> Some (Returned [] (Some e), s)
      | (res, None) \<Rightarrow>
        (case next_order (length (next_nodes (h v))) s of
           (ord, s1) \<Rightarrow>
           (case aggregateNode (h v) of
              None \<Rightarrow> Some (Panicked NilPointerDereference, s1)
            | Some a \<Rightarrow>
              (case action (h a) (aggregateInput h (next_nodes (h v)) res ord) of
                 (res2, Some e) \<Rightarrow> Some (Returned [] (Some e), s1)
               | (res2, None) \<Rightarrow>
                 (case next_nodes (h a) of
                    [] \<Rightarrow> Some (Panicked IndexOutOfRange, s1)
                  | n0 # _ \<Rightarrow>
                    if isConditionalNode (h n0) then executeCondition fuel h n0 res2 s1
                    else if isParallelNode (h n0) then executeParallel fuel h n0 res2 s1
                    else execute fuel h n0 res2 s1)))))"
| "executeCondition 0 h n param s = None"
| "executeCondition (Suc fuel) h n param s =
     (case action (h n) [''data'' \<mapsto> param] of
        (res, Some e) \<Rightarrow> Some (Returned [] (Some e), s)
      | (res, None) \<Rightarrow>
        if (case ParseBool res of Some b \<Rightarrow> b | None \<Rightarrow> False)
        then (case next_nodes (h n) of
                [] \<Rightarrow> Some (Panicked IndexOutOfRange, s)
              | n0 # _ \<Rightarrow>
                if isParallelNode (h n0) then executeParallel fuel h n0 param s
                else if isConditionalNode (h n0) then executeCondition fuel h n0 param s
                else execute fuel h n0 param s)
        else (case next_nodes (h n) of
                n0 # n1 # _ \<Rightarrow>
                if isParallelNode (h n1) then executeParallel fuel h n1 param s
                else if isConditionalNode (h n1) then executeCondition fuel h n1 param s
                else execute fuel h n1 param s
              | _ \<Rightarrow> Some (Panicked IndexOutOfRange, s)))"
  by pat_completeness auto

termination
  apply (relation "inv_image (less_than <*lex*> less_than)
     (\<lambda>x. case x of
        Inl (Inl (fuel, h, n, param, s)) \<Rightarrow> (fuel, 0)
      | Inl (Inr (fuel, h, ns, result, err, s)) \<Rightarrow> (fuel, Suc (length ns))
      | Inr (Inl (fuel, h, v, param, s)) \<Rightarrow> (fuel, 0)
      | Inr (Inr (fuel, h, n, param, s)) \<Rightarrow> (fuel, 0))")
  apply (rule wf_inv_image)
  apply (rule wf_lex_prod)
  apply (rule wf_less_than)
  apply (rule wf_less_than)
  apply simp_all
  done

text \<open>\<open>Execute\<close> starts at \<open>w.root\<close>, which is \<^verbatim>\<open>nil\<close> until an edge call has set it.\<close>

definition Execute :: "nat \<Rightarrow> heap \<Rightarrow> workflow \<Rightarrow> bytes \<Rightarrow> sched \<Rightarrow> (outcome \<times> sched) option" where
  "Execute fuel h w param s =
     (case root w of
        None \<Rightarrow> Some (Panicked NilPointerDereference, s)
      | Some r \<Rightarrow> execute fuel h r param s)"

section \<open>Properties stated about the package\<close>

text \<open>
  \<open>flags_le x y\<close>: every role flag that is set in \<open>x\<close> is set in \<open>y\<close>.
\<close>

definition flags_le :: "node \<Rightarrow> node \<Rightarrow> bool" where
  "flags_le x y \<longleftrightarrow>
     (isTrueNode x \<longrightarrow> isTrueNode y) \<and> (isFalseNode x \<longrightarrow> isFalseNode y) \<and>
     (isConditionalNode x \<longrightarrow> isConditionalNode y) \<and>
     (isParallelNode x \<longrightarrow> isParallelNode y)"

text \<open>The number of role flags that are set on a node.\<close>

definition flag_count :: "node \<Rightarrow> nat" where
  "flag_count x =
     length (filter id [isConditionalNode x, isTrueNode x, isFalseNode x, isParallelNode x])"

text \<open>
  A path along the \<open>next\<close> pointers, and a cycle: a path of at least one edge that ends
  where it starts.  \<open>is_key_path\<close> is the same over the adjacency map \<open>nodes\<close>.
\<close>

fun is_path :: "heap \<Rightarrow> addr list \<Rightarrow> bool" where
  "is_path h (a # b # rest) \<longleftrightarrow> b \<in> set (next_nodes (h a)) \<and> is_path h (b # rest)"
| "is_path h _ \<longleftrightarrow> True"

definition is_cycle :: "heap \<Rightarrow> addr list \<Rightarrow> bool" where
  "is_cycle h p \<longleftrightarrow> 2 \<le> length p \<and> hd p = last p \<and> is_path h p"

fun is_key_path :: "workflow \<Rightarrow> string list \<Rightarrow> bool" where
  "is_key_path w (a # b # rest) \<longleftrightarrow>
     (case nodes w a of
        None \<Rightarrow> False
      | Some grp \<Rightarrow> (case grp b of None \<Rightarrow> False | Some _ \<Rightarrow> is_key_path w (b # rest)))"
| "is_key_path w _ \<longleftrightarrow> True"

definition is_key_cycle :: "workflow \<Rightarrow> string list \<Rightarrow> bool" where
  "is_key_cycle w p \<longleftrightarrow> 2 \<le> length p \<and> hd p = last p \<and> is_key_path w p"

text \<open>\<^verbatim>\<open>_, exists := w.nodes[k]\<close>: the node with key \<open>k\<close> has an adjacency group.\<close>

definition hasGroup :: "workflow \<Rightarrow> string \<Rightarrow> bool" where
  "hasGroup w k = (case nodes w k of None \<Rightarrow> False | Some _ \<Rightarrow> True)"

text \<open>
  A call that returned from a check placed before \<open>assignRoot\<close>: \<open>AddEdge\<close> with any
  error but the one about the adjacency group, \<open>AddConditionalEdge\<close> with any error,
  \<open>AddParallelEdge\<close> with the registration error.  \<open>AddNode\<close> never reaches \<open>assignRoot\<close>.
\<close>

fun stopped_before_assignRoot :: "op \<Rightarrow> error option \<Rightarrow> bool" where
  "stopped_before_assignRoot (OpAddNode ns) e = True"
| "stopped_before_assignRoot (OpAddEdge f t) e =
     (case e of None \<Rightarrow> False | Some x \<Rightarrow> x \<noteq> UseAddParallelEdge)"
| "stopped_before_assignRoot (OpAddConditionalEdge f c t x) e = (e \<noteq> None)"
| "stopped_before_assignRoot (OpAddParallelEdge f a ps) e = (e = Some NotRegistered)"

text \<open>The parts of the result of a sequence of calls.\<close>

definition errors_of ::
  "(error option list \<times> heap \<times> workflow) option \<Rightarrow> error option list option" where
  "errors_of r = map_option fst r"

definition heap_of :: "(error option list \<times> heap \<times> workflow) option \<Rightarrow> heap" where
  "heap_of r = fst (snd (the r))"

definition workflow_of :: "(error option list \<times> heap \<times> workflow) option \<Rightarrow> workflow" where
  "workflow_of r = snd (snd (the r))"

section \<open>A concrete workflow\<close>

text \<open>
  Actions in the style of the package's examples: \<^verbatim>\<open>param["k"]\<close> reads a missing key as
  the empty slice.
\<close>

definition lookup :: "(string \<rightharpoonup> bytes) \<Rightarrow> string \<Rightarrow> bytes" where
  "lookup param k = (case param k of None \<Rightarrow> [] | Some v \<Rightarrow> v)"

definition appendAct :: "string \<Rightarrow> action" where
  "appendAct suffix param = (lookup param ''data'' @ suffix, None)"

definition constAct :: "bytes \<Rightarrow> action" where
  "constAct v param = (v, None)"

definition failAct :: "string \<Rightarrow> action" where
  "failAct msg param = ([], Some (ActionError msg))"

definition joinAct :: "string \<Rightarrow> string \<Rightarrow> action" where
  "joinAct k1 k2 param =
     (lookup param ''data'' @ ''['' @ lookup param k1 @ '','' @ lookup param k2 @ '']'', None)"

text \<open>
  Eight nodes, shaped after \<^verbatim>\<open>examples/with_aggregate\<close>: an entry \<open>r\<close>, a condition \<open>c\<close>
  with the branches \<open>s\<close> and \<open>f\<close>, the fan-out of \<open>s\<close> to \<open>x\<close> and \<open>y\<close> joined by \<open>g\<close>, and
  a final node \<open>t\<close>.  \<open>demo_heap_with n act\<close> replaces the action of node \<open>n\<close>.
\<close>

definition demo_heap :: heap where
  "demo_heap = (\<lambda>_. NewNode [] (constAct []))
     (0 := NewNode ''r'' (appendAct ''-r''),
      1 := NewNode ''c'' (constAct ''true''),
      2 := NewNode ''s'' (appendAct ''-s''),
      3 := NewNode ''f'' (appendAct ''-f''),
      4 := NewNode ''x'' (appendAct ''-x''),
      5 := NewNode ''y'' (appendAct ''-y''),
      6 := NewNode ''g'' (joinAct ''x'' ''y''),
      7 := NewNode ''t'' (appendAct ''-t''))"

definition demo_heap_with :: "addr \<Rightarrow> action \<Rightarrow> heap" where
  "demo_heap_with n act = demo_heap(n := NewNode (key (demo_heap n)) act)"

definition register_all :: op where
  "register_all = OpAddNode [0, 1, 2, 3, 4, 5, 6, 7]"

definition demo_ops :: "op list" where
  "demo_ops =
     [register_all,
      OpAddConditionalEdge 0 1 2 3,
      OpAddParallelEdge 2 6 [4, 5],
      OpAddEdge 6 7,
      OpAddEdge 3 7]"

definition build :: "heap \<Rightarrow> op list \<Rightarrow> (error option list \<times> heap \<times> workflow) option" where
  "build h cs = run h (NewWorkflow ''demo'') cs"

text \<open>The whole workflow, and the sequences of calls that the statements below use.\<close>

definition demo_run :: "(error option list \<times> heap \<times> workflow) option" where
  "demo_run = build demo_heap demo_ops"

definition chain_run :: "(error option list \<times> heap \<times> workflow) option" where
  "chain_run = build demo_heap [register_all, OpAddEdge 0 3, OpAddEdge 3 7]"

definition cycle_run :: "(error option list \<times> heap \<times> workflow) option" where
  "cycle_run = build demo_heap [register_all, OpAddEdge 0 3, OpAddEdge 3 7, OpAddEdge 7 3]"

definition fanout_run :: "(error option list \<times> heap \<times> workflow) option" where
  "fanout_run = build demo_heap [register_all, OpAddEdge 0 2, OpAddParallelEdge 2 6 [4, 5]]"

definition entry_run :: "(error option list \<times> heap \<times> workflow) option" where
  "entry_run = build demo_heap [register_all, OpAddEdge 0 2]"

definition rejected_run :: "(error option list \<times> heap \<times> workflow) option" where
  "rejected_run = build demo_heap [register_all, OpAddEdge 0 2, OpAddParallelEdge 2 6 [4, 0]]"

definition branching_run :: "(error option list \<times> heap \<times> workflow) option" where
  "branching_run = build demo_heap [register_all, OpAddConditionalEdge 0 1 2 3]"

section \<open>Calls of an execution\<close>

text \<open>
  The calls that an execution is made of: \<open>execute\<close>, the rest of its loop over the
  successors, \<open>executeParallel\<close> and \<open>executeCondition\<close>, each with its arguments.
\<close>

datatype call =
    ExecuteCall nat addr bytes sched
  | LoopCall nat "addr list" bytes "error option" sched
  | ParallelCall nat addr bytes sched
  | ConditionCall nat addr bytes sched

fun outcome_of :: "heap \<Rightarrow> call \<Rightarrow> (outcome \<times> sched) option" where
  "outcome_of h (ExecuteCall fuel n param s) = execute fuel h n param s"
| "outcome_of h (LoopCall fuel ns result err s) = executeLoop fuel h ns result err s"
| "outcome_of h (ParallelCall fuel v param s) = executeParallel fuel h v param s"
| "outcome_of h (ConditionCall fuel n param s) = executeCondition fuel h n param s"

text \<open>
  The call by which \<open>execute\<close> and \<open>executeParallel\<close> enter a successor (they test
  \<open>isConditionalNode\<close> first), and the one by which \<open>executeCondition\<close> enters the
  chosen branch (it tests \<open>isParallelNode\<close> first).
\<close>

definition successorCall :: "heap \<Rightarrow> nat \<Rightarrow> addr \<Rightarrow> bytes \<Rightarrow> sched \<Rightarrow> call" where
  "successorCall h fuel n param s =
     (if isConditionalNode (h n) then ConditionCall fuel n param s
      else if isParallelNode (h n) then ParallelCall fuel n param s
      else ExecuteCall fuel n param s)"

definition branchCall :: "heap \<Rightarrow> nat \<Rightarrow> addr \<Rightarrow> bytes \<Rightarrow> sched \<Rightarrow> call" where
  "branchCall h fuel n param s =
     (if isParallelNode (h n) then ParallelCall fuel n param s
      else if isConditionalNode (h n) then ConditionCall fuel n param s
      else ExecuteCall fuel n param s)"

text \<open>
  \<open>invokes h A B\<close>: the call \<open>A\<close> makes the call \<open>B\<close>.  \<open>execute\<close> runs the action
  and enters its loop; the loop enters the next successor and, when that returns
  without error, goes on with the remaining ones; \<open>executeParallel\<close>, after the
  source's and the aggregate's actions have succeeded, enters the aggregate's first
  successor; \<open>executeCondition\<close>, after the condition's action has succeeded, enters
  \<open>next[0]\<close> or \<open>next[1]\<close>.
\<close>

inductive invokes :: "heap \<Rightarrow> call \<Rightarrow> call \<Rightarrow> bool" for h :: heap where
  execute_loop:
    "action (h n) [''data'' \<mapsto> param] = (result, err) \<Longrightarrow>
     invokes h (ExecuteCall (Suc fuel) n param s) (LoopCall fuel (next_nodes (h n)) result err s)"
| loop_successor:
    "invokes h (LoopCall fuel (n # ns) result err s) (successorCall h fuel n result s)"
| loop_rest:
    "outcome_of h (successorCall h fuel n result s) = Some (Returned r None, s1) \<Longrightarrow>
     invokes h (LoopCall fuel (n # ns) result err s) (LoopCall fuel ns r None s1)"
| parallel_successor:
    "action (h v) [''data'' \<mapsto> param] = (res, None) \<Longrightarrow>
     next_order (length (next_nodes (h v))) s = (ord, s1) \<Longrightarrow>
     aggregateNode (h v) = Some a \<Longrightarrow>
     action (h a) (aggregateInput h (next_nodes (h v)) res ord) = (out, None) \<Longrightarrow>
     next_nodes (h a) = n0 # rest \<Longrightarrow>
     invokes h (ParallelCall (Suc fuel) v param s) (successorCall h fuel n0 out s1)"
| condition_true:
    "action (h n) [''data'' \<mapsto> param] = (res, None) \<Longrightarrow>
     ParseBool res = Some True \<Longrightarrow>
     next_nodes (h n) = n0 # rest \<Longrightarrow>
     invokes h (ConditionCall (Suc fuel) n param s) (branchCall h fuel n0 param s)"
| condition_false:
    "action (h n) [''data'' \<mapsto> param] = (res, None) \<Longrightarrow>
     ParseBool res \<noteq> Some True \<Longrightarrow>
     next_nodes (h n) = n0 # n1 # rest \<Longrightarrow>
     invokes h (ConditionCall (Suc fuel) n param s) (branchCall h fuel n1 param s)"

text \<open>
  An outcome that ends the execution: a panic, or an error returned with no result.
\<close>

fun stops :: "(outcome \<times> sched) option \<Rightarrow> bool" where
  "stops (Some (Panicked p, s)) = True"
| "stops (Some (Returned r (Some e), s)) = (r = [])"
| "stops _ = False"

text \<open>The fan-out whose source is the first \<open>from\<close> node, and so the root.\<close>

definition root_fanout_run :: "(error option list \<times> heap \<times> workflow) option" where
  "root_fanout_run = build demo_heap [register_all, OpAddParallelEdge 0 6 [4, 5]]"

section \<open>Construction: facts about single calls\<close>

lemma AddNode_root: "root (AddNode h w ns) = root w"
  by (induction ns arbitrary: w) simp_all

lemma searchFroms_error:
  "searchFroms h froms t f = Some e \<Longrightarrow> e = CircularDetection (key (h f)) (key (h t))"
  by (induction froms) (auto split: if_splits)

lemma isCircular_error: "isCircular h w t f = Some e \<Longrightarrow> \<exists>a b. e = CircularDetection a b"
  by (auto simp: isCircular_def split: option.splits if_splits dest: searchFroms_error)

lemma isCircular_cong:
  "root w = root w' \<Longrightarrow> destinations w = destinations w' \<Longrightarrow>
   isCircular h w t f = isCircular h w' t f"
  by (auto simp: isCircular_def split: option.splits)

lemma validateNode_cong:
  "availableNodes w = availableNodes w' \<Longrightarrow> validateNode h w ns = validateNode h w' ns"
  by (induction ns) (simp_all split: option.splits)

lemma linkParallel_root [simp]: "root (linkParallel h w f a n) = root w"
  by (simp add: linkParallel_def Let_def)

lemma linkParallel_destinations [simp]:
  "destinations (linkParallel h w f a n) =
     appendDest (appendDest (destinations w) (key (h n)) f) (key (h a)) n"
  by (simp add: linkParallel_def Let_def)

lemma parallelLoop_root: "parallelLoop h w f a ps = (e, w') \<Longrightarrow> root w' = root w"
proof (induction ps arbitrary: w)
  case Nil
  then show ?case by simp
next
  case (Cons n ns)
  show ?case
  proof (cases "isCircular h w n f = None \<and> isCircular h w a n = None")
    case True
    with Cons.prems have "parallelLoop h (linkParallel h w f a n) f a ns = (e, w')"
      by simp
    from Cons.IH[OF this] show ?thesis by simp
  next
    case False
    with Cons.prems show ?thesis by (auto split: option.splits)
  qed
qed

lemma parallelLoop_error:
  "parallelLoop h w f a ps = (Some e, w') \<Longrightarrow> \<exists>x y. e = CircularDetection x y"
proof (induction ps arbitrary: w)
  case Nil
  then show ?case by simp
next
  case (Cons n ns)
  show ?case
  proof (cases "isCircular h w n f = None \<and> isCircular h w a n = None")
    case True
    with Cons.prems have "parallelLoop h (linkParallel h w f a n) f a ns = (Some e, w')"
      by simp
    from Cons.IH[OF this] show ?thesis .
  next
    case False
    with Cons.prems show ?thesis
      by (auto split: option.splits dest: isCircular_error)
  qed
qed

lemma parallelLoop_cong:
  "root w = root w' \<Longrightarrow> destinations w = destinations w' \<Longrightarrow>
   fst (parallelLoop h w f a ps) = fst (parallelLoop h w' f a ps)"
proof (induction ps arbitrary: w w')
  case Nil
  then show ?case by simp
next
  case (Cons n ns)
  have c1: "isCircular h w n f = isCircular h w' n f"
    and c2: "isCircular h w a n = isCircular h w' a n"
    using Cons.prems by (auto intro: isCircular_cong)
  have ih: "fst (parallelLoop h (linkParallel h w f a n) f a ns) =
            fst (parallelLoop h (linkParallel h w' f a n) f a ns)"
    using Cons.prems by (intro Cons.IH) simp_all
  show ?case
    by (simp add: c1 c2 ih split: option.splits)
qed

subsection \<open>Calls that return an error\<close>

text \<open>
  \<open>AddConditionalEdge\<close> makes all its checks before it changes anything, and so does
  \<open>AddEdge\<close> up to its last check, which it makes holding the mutex.
\<close>

lemma AddConditionalEdge_error_unchanged:
  "AddConditionalEdge h w f c t x = Some (Some e, h', w') \<Longrightarrow> h' = h \<and> w' = w"
  by (simp add: AddConditionalEdge_def Let_def split: if_splits option.splits)

lemma AddEdge_error_unchanged:
  "AddEdge h w f t = Some (Some e, h', w') \<Longrightarrow>
   h' = h \<and> (w' = w \<or> e = UseAddParallelEdge \<and> w' = (assignRoot w f)\<lparr>cLock := True\<rparr>)"
  by (auto simp: AddEdge_def Let_def split: if_splits option.splits)

subsection \<open>The role flags\<close>

lemma flags_le_refl: "flags_le x x"
  by (simp add: flags_le_def)

lemma flags_le_trans: "flags_le x y \<Longrightarrow> flags_le y z \<Longrightarrow> flags_le x z"
  by (simp add: flags_le_def)

lemma AddEdge_flags:
  assumes "AddEdge h w f t = Some (e, h', w')"
  shows "flags_le (h n) (h' n)"
  using assms
  by (auto simp: AddEdge_def Let_def flags_le_def split: if_splits option.splits)

lemma AddConditionalEdge_flags:
  assumes "AddConditionalEdge h w f c t e = Some (r, h', w')"
  shows "flags_le (h n) (h' n)"
proof (cases r)
  case (Some x)
  with assms have "h' = h"
    by (simp add: AddConditionalEdge_def Let_def split: if_splits option.splits)
  then show ?thesis by (simp add: flags_le_refl)
next
  case None
  with assms have
    "h' = (let h1 = h(c := (h c)\<lparr>isConditionalNode := True\<rparr>);
               h2 = h1(f := (h1 f)\<lparr>next_nodes := next_nodes (h1 f) @ [c]\<rparr>);
               h3 = h2(t := (h2 t)\<lparr>isTrueNode := True\<rparr>);
               h4 = h3(e := (h3 e)\<lparr>isFalseNode := True\<rparr>)
           in h4(c := (h4 c)\<lparr>next_nodes := [t, e]\<rparr>))"
    by (simp add: AddConditionalEdge_def Let_def split: if_splits option.splits)
  then show ?thesis
    by (simp add: Let_def flags_le_def)
qed

lemma AddParallelEdge_flags:
  assumes "AddParallelEdge h w f a ps = Some (r, h', w')"
  shows "flags_le (h n) (h' n)"
  using assms
  by (auto simp: AddParallelEdge_def Let_def flags_le_def
           split: if_splits option.splits prod.splits)

lemma apply_op_flags:
  assumes "apply_op h w c = Some (r, h', w')"
  shows "flags_le (h n) (h' n)"
proof (cases c)
  case (OpAddNode ns)
  with assms show ?thesis by (simp add: flags_le_refl)
next
  case (OpAddEdge f t)
  with assms show ?thesis by (simp add: AddEdge_flags)
next
  case (OpAddConditionalEdge f c t e)
  with assms show ?thesis by (simp add: AddConditionalEdge_flags)
next
  case (OpAddParallelEdge f a ps)
  with assms show ?thesis by (simp add: AddParallelEdge_flags)
qed

text \<open>A sequence that returns splits into its first call and the rest.\<close>

lemma run_Cons:
  assumes "run h w (c # cs) = Some (es, h', w')"
  obtains e h1 w1 es1 where "apply_op h w c = Some (e, h1, w1)"
    and "run h1 w1 cs = Some (es1, h', w')" and "es = e # es1"
  using assms by (auto split: option.splits)

lemma run_append:
  assumes "run h w (xs @ ys) = Some (es, h', w')"
  shows "\<exists>es1 h1 w1 es2. run h w xs = Some (es1, h1, w1) \<and> run h1 w1 ys = Some (es2, h', w')
           \<and> es = es1 @ es2 \<and> length es1 = length xs"
  using assms
proof (induction xs arbitrary: h w es)
  case Nil
  then show ?case by simp
next
  case (Cons c cs)
  from Cons.prems obtain e h1 w1 es1 where a: "apply_op h w c = Some (e, h1, w1)"
    and r: "run h1 w1 (cs @ ys) = Some (es1, h', w')" and es: "es = e # es1"
    by (auto split: option.splits)
  from Cons.IH[OF r] obtain ea ha wa eb where
    "run h1 w1 cs = Some (ea, ha, wa)" "run ha wa ys = Some (eb, h', w')"
    "es1 = ea @ eb" "length ea = length cs"
    by blast
  with a es show ?case by simp
qed

subsection \<open>The root\<close>

lemma AddEdge_root_kept:
  "AddEdge h w f t = Some (e, h', w') \<Longrightarrow> root w = Some r \<Longrightarrow> root w' = Some r"
  by (auto simp: AddEdge_def assignRoot_def Let_def split: if_splits option.splits)

lemma AddConditionalEdge_root_kept:
  "AddConditionalEdge h w f c t x = Some (e, h', w') \<Longrightarrow> root w = Some r \<Longrightarrow> root w' = Some r"
  by (auto simp: AddConditionalEdge_def assignRoot_def Let_def split: if_splits option.splits)

lemma AddParallelEdge_root_kept:
  "AddParallelEdge h w f a ps = Some (e, h', w') \<Longrightarrow> root w = Some r \<Longrightarrow> root w' = Some r"
  by (auto simp: AddParallelEdge_def assignRoot_def Let_def
           split: if_splits option.splits prod.splits dest!: parallelLoop_root)

lemma apply_op_root_kept:
  assumes "apply_op h w c = Some (e, h', w')" and "root w = Some r"
  shows "root w' = Some r"
proof (cases c)
  case (OpAddNode ns)
  with assms show ?thesis by (auto simp: AddNode_root)
next
  case (OpAddEdge f t)
  with assms show ?thesis by (simp add: AddEdge_root_kept)
next
  case (OpAddConditionalEdge f c t x)
  with assms show ?thesis by (simp add: AddConditionalEdge_root_kept)
next
  case (OpAddParallelEdge f a ps)
  with assms show ?thesis by (simp add: AddParallelEdge_root_kept)
qed

lemma run_root_kept:
  "run h w cs = Some (es, h', w') \<Longrightarrow> root w = Some r \<Longrightarrow> root w' = Some r"
proof (induction cs arbitrary: h w es)
  case Nil
  then show ?case by simp
next
  case (Cons c cs)
  from Cons.prems(1) obtain e h1 w1 es1 where a: "apply_op h w c = Some (e, h1, w1)"
    and r: "run h1 w1 cs = Some (es1, h', w')"
    by (rule run_Cons)
  from apply_op_root_kept[OF a Cons.prems(2)] have "root w1 = Some r" .
  with Cons.IH[OF r] show ?case by simp
qed

lemma apply_op_sets_root:
  assumes "apply_op h w c = Some (None, h', w')" and "from_of c = Some f" and "root w = None"
  shows "root w' = Some f"
proof (cases c)
  case (OpAddNode ns)
  with assms show ?thesis by simp
next
  case (OpAddEdge f' t)
  with assms show ?thesis
    by (auto simp: AddEdge_def assignRoot_def Let_def split: if_splits option.splits)
next
  case (OpAddConditionalEdge f' c t x)
  with assms show ?thesis
    by (auto simp: AddConditionalEdge_def assignRoot_def Let_def split: if_splits option.splits)
next
  case (OpAddParallelEdge f' a ps)
  with assms show ?thesis
    by (auto simp: AddParallelEdge_def assignRoot_def Let_def
             split: if_splits option.splits prod.splits dest!: parallelLoop_root)
qed

lemma apply_op_stopped:
  assumes "apply_op h w c = Some (e, h', w')" and "stopped_before_assignRoot c e"
  shows "root w' = root w"
proof (cases c)
  case (OpAddNode ns)
  with assms show ?thesis by (auto simp: AddNode_root)
next
  case (OpAddEdge f t)
  with assms show ?thesis
    by (auto simp: AddEdge_def Let_def split: if_splits option.splits)
next
  case (OpAddConditionalEdge f c t x)
  with assms show ?thesis
    by (auto simp: AddConditionalEdge_def Let_def split: if_splits option.splits)
next
  case (OpAddParallelEdge f a ps)
  with assms show ?thesis
    by (auto simp: AddParallelEdge_def Let_def
             split: if_splits option.splits prod.splits dest: parallelLoop_error)
qed

lemma run_stopped:
  "run h w cs = Some (es, h', w') \<Longrightarrow> list_all2 stopped_before_assignRoot cs es \<Longrightarrow>
   root w' = root w"
proof (induction cs arbitrary: h w es)
  case Nil
  then show ?case by simp
next
  case (Cons c cs)
  from Cons.prems(1) obtain e h1 w1 es1 where a: "apply_op h w c = Some (e, h1, w1)"
    and r: "run h1 w1 cs = Some (es1, h', w')" and es: "es = e # es1"
    by (rule run_Cons)
  from Cons.prems(2) es have s1: "stopped_before_assignRoot c e"
    and s2: "list_all2 stopped_before_assignRoot cs es1"
    by simp_all
  from apply_op_stopped[OF a s1] Cons.IH[OF r s2] show ?case by simp
qed

subsection \<open>The adjacency group of the source\<close>

lemma assignRoot_fields [simp]:
  "nodes (assignRoot w n) = nodes w" "cLock (assignRoot w n) = cLock w"
  "destinations (assignRoot w n) = destinations w"
  "availableNodes (assignRoot w n) = availableNodes w"
  by (simp_all add: assignRoot_def)

lemma AddEdge_group_no_success:
  "hasGroup w (key (h f)) \<Longrightarrow> AddEdge h w f t \<noteq> Some (None, h', w')"
  by (auto simp: AddEdge_def hasGroup_def Let_def split: if_splits option.splits)

lemma AddEdge_group_error:
  assumes "hasGroup w (key (h f))" and "validateNode h w [f, t]"
    and "isCircular h w t f = None" and "key (h f) \<noteq> key (h t)" and "\<not> cLock w"
  shows "map_option fst (AddEdge h w f t) = Some (Some UseAddParallelEdge)"
  using assms
  by (auto simp: AddEdge_def hasGroup_def Let_def split: if_splits option.splits)

lemma AddConditionalEdge_error:
  "map_option fst (AddConditionalEdge h w f c t x) =
     (if \<not> validateNode h w [f, c, t, x] then Some (Some NotRegistered)
      else case isCircular h w t f of Some e \<Rightarrow> Some (Some e) | None \<Rightarrow>
        (case isCircular h w x f of Some e \<Rightarrow> Some (Some e) | None \<Rightarrow>
          (case isCircular h w c f of Some e \<Rightarrow> Some (Some e) | None \<Rightarrow>
            if cLock w then None else Some None)))"
  by (simp add: AddConditionalEdge_def Let_def split: option.splits)

lemma AddParallelEdge_error:
  "map_option fst (AddParallelEdge h w f a ps) =
     (if \<not> validateNode h w [f, a] then Some (Some NotRegistered)
      else if \<not> validateNode h w ps then Some (Some NotRegistered)
      else case isCircular h w a f of Some e \<Rightarrow> Some (Some e) | None \<Rightarrow>
        if cLock w then None
        else Some (fst (parallelLoop (h(f := (h f)\<lparr>isParallelNode := True\<rparr>))
                          ((assignRoot w f)\<lparr>cLock := True\<rparr>) f a ps)))"
  by (simp add: AddParallelEdge_def Let_def split: option.splits prod.splits)

lemma AddConditionalEdge_nodes_irrelevant:
  "map_option fst (AddConditionalEdge h (w\<lparr>nodes := m\<rparr>) f c t x) =
   map_option fst (AddConditionalEdge h w f c t x)"
proof -
  have v: "\<And>ns. validateNode h (w\<lparr>nodes := m\<rparr>) ns = validateNode h w ns"
    by (rule validateNode_cong) simp
  have c: "\<And>a b. isCircular h (w\<lparr>nodes := m\<rparr>) a b = isCircular h w a b"
    by (rule isCircular_cong) simp_all
  show ?thesis
    unfolding AddConditionalEdge_error v c by simp
qed

lemma AddParallelEdge_nodes_irrelevant:
  "map_option fst (AddParallelEdge h (w\<lparr>nodes := m\<rparr>) f a ps) =
   map_option fst (AddParallelEdge h w f a ps)"
proof -
  have v: "\<And>ns. validateNode h (w\<lparr>nodes := m\<rparr>) ns = validateNode h w ns"
    by (rule validateNode_cong) simp
  have c: "\<And>a b. isCircular h (w\<lparr>nodes := m\<rparr>) a b = isCircular h w a b"
    by (rule isCircular_cong) simp_all
  have l: "\<And>h'. fst (parallelLoop h' ((assignRoot (w\<lparr>nodes := m\<rparr>) f)\<lparr>cLock := True\<rparr>) f a ps) =
                fst (parallelLoop h' ((assignRoot w f)\<lparr>cLock := True\<rparr>) f a ps)"
    by (rule parallelLoop_cong) (simp_all add: assignRoot_def)
  show ?thesis
    unfolding AddParallelEdge_error v c l by simp
qed

subsection \<open>The checks of \<open>AddEdge\<close> in their order\<close>

lemma searchFroms_None:
  "searchFroms h froms t f = None \<longleftrightarrow> key (h f) \<notin> (\<lambda>n. key (h n)) ` set froms"
  by (induction froms) auto

lemma isCircular_None:
  "isCircular h w t f = None \<longleftrightarrow>
     (\<forall>r. root w = Some r \<longrightarrow> key (h t) \<noteq> key (h r)) \<and>
     (\<forall>froms. destinations w (key (h t)) = Some froms \<longrightarrow>
        key (h f) \<notin> (\<lambda>n. key (h n)) ` set froms)"
  by (auto simp: isCircular_def searchFroms_None split: option.splits)

lemma AddEdge_not_registered:
  "\<not> validateNode h w [f, t] \<Longrightarrow> AddEdge h w f t = Some (Some NotRegistered, h, w)"
  by (simp add: AddEdge_def)

lemma AddEdge_cycle:
  "validateNode h w [f, t] \<Longrightarrow> isCircular h w t f = Some e \<Longrightarrow>
   AddEdge h w f t = Some (Some e, h, w) \<and> kind_of e = CycleError"
  by (auto simp: AddEdge_def dest: isCircular_error)

lemma AddEdge_same_key:
  "validateNode h w [f, t] \<Longrightarrow> isCircular h w t f = None \<Longrightarrow> key (h f) = key (h t) \<Longrightarrow>
   AddEdge h w f t = Some (Some CircularReference, h, w)"
  by (simp add: AddEdge_def)

lemma AddConditionalEdge_not_structural:
  "AddConditionalEdge h w f c t x \<noteq> Some (Some UseAddParallelEdge, h', w')"
proof
  assume "AddConditionalEdge h w f c t x = Some (Some UseAddParallelEdge, h', w')"
  then have "map_option fst (AddConditionalEdge h w f c t x) = Some (Some UseAddParallelEdge)"
    by simp
  then show False
    unfolding AddConditionalEdge_error
    by (auto split: if_splits option.splits dest: isCircular_error)
qed

lemma parallelLoop_error_fst:
  "fst (parallelLoop h w f a ps) = Some e \<Longrightarrow> \<exists>x y. e = CircularDetection x y"
  by (cases "parallelLoop h w f a ps") (auto dest: parallelLoop_error)

lemma AddParallelEdge_not_structural:
  "AddParallelEdge h w f a ps \<noteq> Some (Some UseAddParallelEdge, h', w')"
proof
  assume "AddParallelEdge h w f a ps = Some (Some UseAddParallelEdge, h', w')"
  then have "map_option fst (AddParallelEdge h w f a ps) = Some (Some UseAddParallelEdge)"
    by simp
  then show False
    unfolding AddParallelEdge_error
    by (auto split: if_splits option.splits dest: isCircular_error parallelLoop_error_fst)
qed

section \<open>Execution: facts about single calls\<close>

lemma outcome_of_successorCall:
  "outcome_of h (successorCall h fuel n param s) =
     (if isConditionalNode (h n) then executeCondition fuel h n param s
      else if isParallelNode (h n) then executeParallel fuel h n param s
      else execute fuel h n param s)"
  by (simp add: successorCall_def)

lemma outcome_of_branchCall:
  "outcome_of h (branchCall h fuel n param s) =
     (if isParallelNode (h n) then executeParallel fuel h n param s
      else if isConditionalNode (h n) then executeCondition fuel h n param s
      else execute fuel h n param s)"
  by (simp add: branchCall_def)

text \<open>
  A call hands an outcome that ends the execution to its caller unchanged.
\<close>

lemma invokes_stops:
  assumes "invokes h A B" and "stops (outcome_of h B)"
  shows "outcome_of h A = outcome_of h B"
  using assms
proof (induction rule: invokes.induct)
  case (execute_loop n param result err fuel s)
  then show ?case by simp
next
  case (loop_successor fuel n ns result err s)
  let ?x = "outcome_of h (successorCall h fuel n result s)"
  from loop_successor have st: "stops ?x" by simp
  have "executeLoop fuel h (n # ns) result err s = ?x"
  proof (cases ?x)
    case None
    with st show ?thesis by simp
  next
    case (Some y)
    obtain o1 s1 where y: "y = (o1, s1)" by (cases y)
    show ?thesis
    proof (cases o1)
      case (Panicked p)
      with Some y show ?thesis
        by (simp add: outcome_of_successorCall)
    next
      case (Returned r e)
      with Some y st obtain x where "e = Some x" and "r = []"
        by (cases e) auto
      with Some y Returned show ?thesis
        by (simp add: outcome_of_successorCall)
    qed
  qed
  then show ?case by simp
next
  case (loop_rest fuel n result s r s1 ns err)
  then show ?case by (simp add: outcome_of_successorCall)
next
  case (parallel_successor v param res s ord s1 a out n0 rest fuel)
  then show ?case by (simp add: outcome_of_successorCall)
next
  case (condition_true n param res n0 rest fuel s)
  then show ?case by (simp add: outcome_of_branchCall)
next
  case (condition_false n param res n0 n1 rest fuel s)
  then show ?case by (cases "ParseBool res") (simp_all add: outcome_of_branchCall)
qed

lemma invokes_star_stops:
  assumes "(invokes h)\<^sup>*\<^sup>* A B" and "stops (outcome_of h B)"
  shows "outcome_of h A = outcome_of h B"
  using assms
proof (induction rule: converse_rtranclp_induct)
  case base
  show ?case by simp
next
  case (step A C)
  from step.IH[OF step.prems] have eq: "outcome_of h C = outcome_of h B" .
  with step.prems have "stops (outcome_of h C)" by simp
  from invokes_stops[OF step.hyps(1) this] eq show ?case by simp
qed

subsection \<open>What the aggregate receives\<close>

lemma collect_other: "k \<notin> set ks \<Longrightarrow> collect ks rs m k = m k"
  by (induction ks rs m rule: collect.induct) auto

lemma collect_nth:
  "distinct ks \<Longrightarrow> length rs = length ks \<Longrightarrow> i < length ks \<Longrightarrow>
   collect ks rs m (ks ! i) = Some (rs ! i)"
proof (induction ks rs m arbitrary: i rule: collect.induct)
  case (1 k ks r rs m)
  show ?case
  proof (cases i)
    case 0
    with "1.prems" show ?thesis by (simp add: collect_other)
  next
    case (Suc j)
    have "collect ks rs (m(k \<mapsto> r)) (ks ! j) = Some (rs ! j)"
      using "1.prems" Suc by (intro "1.IH") simp_all
    with Suc show ?thesis by simp
  qed
qed simp_all

lemma collect_map_of: "collect ks rs m = m ++ map_of (rev (zip ks rs))"
proof (induction ks rs m rule: collect.induct)
  case (1 k ks r rs m)
  have a: "m(k \<mapsto> r) ++ map_of (rev (zip ks rs)) =
        m ++ (map_of [(k, r)] ++ map_of (rev (zip ks rs)))"
    by (simp add: map_add_assoc [symmetric] map_add_upd)
  have "collect (k # ks) (r # rs) m = collect ks rs (m(k \<mapsto> r))" by simp
  also have "\<dots> = m(k \<mapsto> r) ++ map_of (rev (zip ks rs))" by (rule "1.IH")
  also have "\<dots> = m ++ (map_of [(k, r)] ++ map_of (rev (zip ks rs)))" by (rule a)
  also have "\<dots> = m ++ map_of (rev (zip (k # ks) (r # rs)))" by simp
  finally show ?case .
qed simp_all

text \<open>The order that \<open>next_order\<close> yields is a permutation of the branch positions.\<close>

lemma arrival_valid: "length (arrival n ord) = n \<and> distinct (arrival n ord)
    \<and> set (arrival n ord) = {0..<n}"
proof (cases "length ord = n \<and> distinct ord \<and> list_all (\<lambda>i. i < n) ord")
  case True
  then have sub: "set ord \<subseteq> {0..<n}" by (auto simp: list_all_iff)
  from True have "card (set ord) = n" by (simp add: distinct_card)
  with sub have "set ord = {0..<n}" by (simp add: card_subset_eq)
  with True show ?thesis by (simp add: arrival_def)
next
  case False
  then show ?thesis by (auto simp: arrival_def)
qed

lemma next_order_valid:
  assumes "next_order n s = (ord, s1)"
  shows "length ord = n" and "distinct ord" and "set ord = {0..<n}"
  using assms arrival_valid[of n]
  by (auto simp: next_order_def split: list.splits)

lemma aggregateInput_data: "aggregateInput h bs res ord ''data'' = Some res"
  by (simp add: aggregateInput_def)

lemma aggregateInput_map_of:
  assumes "\<forall>i \<in> set ord. i < length bs"
  shows "aggregateInput h bs res ord =
           (map_of (rev (zip (map (\<lambda>n. key (h n)) bs)
              (map (\<lambda>i. fst (action (h (bs ! i)) [''data'' \<mapsto> res])) ord))))(''data'' \<mapsto> res)"
proof -
  have eq: "map (\<lambda>i. map (\<lambda>n. fst (action (h n) [''data'' \<mapsto> res])) bs ! i) ord =
        map (\<lambda>i. fst (action (h (bs ! i)) [''data'' \<mapsto> res])) ord"
    using assms by simp
  show ?thesis
    unfolding aggregateInput_def Let_def collect_map_of eq by simp
qed

lemma aggregateInput_key:
  assumes "distinct (map (\<lambda>n. key (h n)) bs)" and "''data'' \<notin> set (map (\<lambda>n. key (h n)) bs)"
    and "length ord = length bs" and "\<forall>i \<in> set ord. i < length bs" and "i < length bs"
  shows "aggregateInput h bs res ord (key (h (bs ! i))) =
           Some (fst (action (h (bs ! (ord ! i))) [''data'' \<mapsto> res]))"
proof -
  let ?ks = "map (\<lambda>n. key (h n)) bs"
  let ?sent = "map (\<lambda>n. fst (action (h n) [''data'' \<mapsto> res])) bs"
  let ?rs = "map (\<lambda>i. ?sent ! i) ord"
  from assms have o: "ord ! i < length bs" by simp
  from assms have k: "key (h (bs ! i)) \<noteq> ''data''" by (metis length_map nth_map nth_mem)
  have "collect ?ks ?rs Map.empty (?ks ! i) = Some (?rs ! i)"
    using assms by (intro collect_nth) simp_all
  with assms o have "collect ?ks ?rs Map.empty (key (h (bs ! i))) =
      Some (fst (action (h (bs ! (ord ! i))) [''data'' \<mapsto> res]))"
    by simp
  with k show ?thesis by (simp add: aggregateInput_def)
qed

subsection \<open>Reaching the first successor\<close>

lemma reach_first_successor:
  assumes "action (h r) [''data'' \<mapsto> p] = (result, err)" and "next_nodes (h r) = n # ns"
  shows "(invokes h)\<^sup>*\<^sup>* (ExecuteCall (Suc fuel) r p s) (successorCall h fuel n result s)"
proof -
  have "invokes h (ExecuteCall (Suc fuel) r p s) (LoopCall fuel (n # ns) result err s)"
    using invokes.execute_loop[where h = h and n = r and fuel = fuel and s = s, OF assms(1)]
      assms(2) by simp
  moreover have "invokes h (LoopCall fuel (n # ns) result err s) (successorCall h fuel n result s)"
    by (rule invokes.loop_successor)
  ultimately show ?thesis by (meson rtranclp.rtrancl_into_rtrancl rtranclp.rtrancl_refl)
qed

lemma reach_fan_out_behind_condition:
  assumes "action (h r) [''data'' \<mapsto> p] = (result, err)" and "next_nodes (h r) = c # ns"
    and "isConditionalNode (h c)"
    and "action (h c) [''data'' \<mapsto> result] = (res, None)" and "ParseBool res = Some True"
    and "next_nodes (h c) = n0 # rest" and "isParallelNode (h n0)"
  shows "(invokes h)\<^sup>*\<^sup>* (ExecuteCall (Suc (Suc fuel)) r p s) (ParallelCall fuel n0 result s)"
proof -
  have "(invokes h)\<^sup>*\<^sup>* (ExecuteCall (Suc (Suc fuel)) r p s)
          (successorCall h (Suc fuel) c result s)"
    by (rule reach_first_successor[where h = h and r = r, OF assms(1,2)])
  moreover have "successorCall h (Suc fuel) c result s = ConditionCall (Suc fuel) c result s"
    using assms(3) by (simp add: successorCall_def)
  moreover have "invokes h (ConditionCall (Suc fuel) c result s) (branchCall h fuel n0 result s)"
    by (rule invokes.condition_true[where h = h and n = c, OF assms(4,5,6)])
  moreover have "branchCall h fuel n0 result s = ParallelCall fuel n0 result s"
    using assms(7) by (simp add: branchCall_def)
  ultimately show ?thesis by simp
qed

lemma Execute_outcome_of:
  "root w = Some r \<Longrightarrow> Execute fuel h w p s = outcome_of h (ExecuteCall fuel r p s)"
  by (simp add: Execute_def)

section \<open>Construction: the claims\<close>

text \<open>
  A cycle of two plain nodes: \<open>execute\<close> never returns from either of them.
\<close>

lemma two_cycle_never_returns:
  assumes "next_nodes (h a) = [b]" and "next_nodes (h b) = [a]"
    and "\<not> isConditionalNode (h a)" and "\<not> isParallelNode (h a)"
    and "\<not> isConditionalNode (h b)" and "\<not> isParallelNode (h b)"
  shows "execute fuel h a p s = None \<and> execute fuel h b p s = None"
proof (induction fuel arbitrary: p s)
  case 0
  show ?case by simp
next
  case (Suc fuel)
  show ?case
    using assms Suc.IH by (simp add: case_prod_beta)
qed

text \<open>
  Claim C2: the graph built by successful edge calls on registered nodes has no cycle.
  The code accepts a back edge.  \<open>AddEdge r f\<close>, \<open>AddEdge f t\<close> and \<open>AddEdge t f\<close> all
  succeed, because \<open>isCircular\<close> called for the edge \<open>t \<rightarrow> f\<close> only compares \<open>f\<close> with
  the root and looks for \<open>t\<close> among the recorded predecessors of \<open>f\<close>.  The \<open>next\<close>
  pointers and the adjacency map then hold the cycle \<open>f \<rightarrow> t \<rightarrow> f\<close>.
\<close>

theorem back_edge_is_accepted:
  "errors_of cycle_run = Some [None, None, None, None]
   \<and> next_nodes (heap_of cycle_run 3) = [7]
   \<and> next_nodes (heap_of cycle_run 7) = [3]
   \<and> is_cycle (heap_of cycle_run) [3, 7, 3]
   \<and> is_key_cycle (workflow_of cycle_run) [''f'', ''t'', ''f'']"
  by code_simp

text \<open>On that workflow \<open>Execute\<close> does not return, whatever the fuel.\<close>

lemma cyclic_workflow_never_returns:
  "Execute fuel (heap_of cycle_run) (workflow_of cycle_run) p s = None"
proof -
  let ?h = "heap_of cycle_run"
  have r: "root (workflow_of cycle_run) = Some 0" by code_simp
  have n0: "next_nodes (?h 0) = [3]" by code_simp
  have n: "next_nodes (?h 3) = [7]" "next_nodes (?h 7) = [3]" by code_simp+
  have f: "\<not> isConditionalNode (?h 3)" "\<not> isParallelNode (?h 3)"
    "\<not> isConditionalNode (?h 7)" "\<not> isParallelNode (?h 7)"
    by code_simp+
  have inner: "\<And>k q. execute k ?h 3 q s = None"
    using two_cycle_never_returns[where h = "?h" and a = 3 and b = 7, OF n f] by blast
  show ?thesis
  proof (cases fuel)
    case 0
    with r show ?thesis by (simp add: Execute_def)
  next
    case (Suc k)
    with r n0 f inner show ?thesis by (simp add: Execute_def case_prod_beta)
  qed
qed

text \<open>
  Claim C3: an edge call that returns an error leaves the workflow and the nodes as
  they were.  \<open>AddParallelEdge\<close> does not.  On the workflow with the edge \<open>r \<rightarrow> s\<close>,
  \<open>AddParallelEdge s g [x, r]\<close> returns the cycle error of its second iteration (\<open>r\<close>
  is the root) after the first iteration has run: \<open>s\<close> is now marked as a parallel
  source, \<open>nodes\<close> and \<open>destinations\<close> hold the edges of branch \<open>x\<close>, \<open>s.next\<close> and
  \<open>s.aggregateNode\<close> are not set, and the mutex is still held, so that the next edge
  call never returns.  On a new workflow \<open>AddParallelEdge s g [s]\<close> fails likewise and
  leaves \<open>s\<close> as root.  (\<open>AddEdge\<close> and \<open>AddConditionalEdge\<close> check first:
  \<open>AddEdge_error_unchanged\<close>, \<open>AddConditionalEdge_error_unchanged\<close>.)
\<close>

theorem AddParallelEdge_error_after_mutation:
  "errors_of entry_run = Some [None, None]
   \<and> errors_of rejected_run = Some [None, None, Some (CircularDetection ''s'' ''r'')]
   \<and> map_option fst (AddParallelEdge (heap_of entry_run) (workflow_of entry_run) 2 6 [4, 0]) =
        Some (Some (CircularDetection ''s'' ''r''))
   \<and> kind_of (CircularDetection ''s'' ''r'') = CycleError
   \<and> \<not> isParallelNode (heap_of entry_run 2) \<and> isParallelNode (heap_of rejected_run 2)
   \<and> \<not> hasGroup (workflow_of entry_run) ''s'' \<and> hasGroup (workflow_of rejected_run) ''s''
   \<and> \<not> hasGroup (workflow_of entry_run) ''x'' \<and> hasGroup (workflow_of rejected_run) ''x''
   \<and> destinations (workflow_of entry_run) ''x'' = None
   \<and> destinations (workflow_of rejected_run) ''x'' = Some [2]
   \<and> destinations (workflow_of entry_run) ''g'' = None
   \<and> destinations (workflow_of rejected_run) ''g'' = Some [4]
   \<and> next_nodes (heap_of rejected_run 2) = []
   \<and> aggregateNode (heap_of rejected_run 2) = None
   \<and> \<not> cLock (workflow_of entry_run) \<and> cLock (workflow_of rejected_run)
   \<and> errors_of (build demo_heap
         [register_all, OpAddEdge 0 2, OpAddParallelEdge 2 6 [4, 0], OpAddEdge 6 7]) = None
   \<and> root (workflow_of (build demo_heap [register_all])) = None
   \<and> errors_of (build demo_heap [register_all, OpAddParallelEdge 2 6 [2]]) =
        Some [None, Some (CircularDetection ''s'' ''s'')]
   \<and> root (workflow_of (build demo_heap [register_all, OpAddParallelEdge 2 6 [2]])) = Some 2"
  by code_simp

text \<open>
  Against claim C5 as stated: the example \<^verbatim>\<open>examples/with_aggregate\<close> makes the true
  branch of a condition the source of a fan-out.  In the demo workflow node \<open>s\<close> (2) is such a node: after three
  successful calls it carries two role flags.  A node named as both branches of a
  condition carries two flags after one call.
\<close>

theorem node_with_two_roles:
  "errors_of demo_run = Some [None, None, None, None, None]
   \<and> isTrueNode (heap_of demo_run 2) \<and> isParallelNode (heap_of demo_run 2)
   \<and> flag_count (heap_of demo_run 2) = 2
   \<and> errors_of (build demo_heap [register_all, OpAddConditionalEdge 0 1 2 2]) = Some [None, None]
   \<and> flag_count (heap_of (build demo_heap [register_all, OpAddConditionalEdge 0 1 2 2]) 2) = 2"
  by code_simp

text \<open>
  Claim C5 (as amended).  No sequence of construction calls clears a role flag: every
  flag that a node has before the sequence it has after it.  A node may hold several
  flags.
\<close>

theorem flags_never_cleared:
  "run h w cs = Some (es, h', w') \<Longrightarrow> flags_le (h n) (h' n)"
proof (induction cs arbitrary: h w es)
  case Nil
  then show ?case by (simp add: flags_le_refl)
next
  case (Cons c cs)
  from Cons.prems obtain e h1 w1 es1 where a: "apply_op h w c = Some (e, h1, w1)"
    and r: "run h1 w1 cs = Some (es1, h', w')"
    by (rule run_Cons)
  from apply_op_flags[OF a] Cons.IH[OF r] show ?case by (rule flags_le_trans)
qed

theorem flags_never_cleared_witness:
  "isTrueNode (heap_of branching_run 2)
   \<and> isTrueNode (heap_of (run (heap_of branching_run) (workflow_of branching_run)
        [OpAddParallelEdge 2 6 [4, 5], OpAddEdge 6 7, OpAddEdge 3 7]) 2)"
proof -
  let ?r = "run (heap_of branching_run) (workflow_of branching_run)
              [OpAddParallelEdge 2 6 [4, 5], OpAddEdge 6 7, OpAddEdge 3 7]"
  have t: "isTrueNode (heap_of branching_run 2)" by code_simp
  have "errors_of ?r = Some [None, None, None]" by code_simp
  then obtain h' w' where r: "?r = Some ([None, None, None], h', w')"
    by (cases ?r) (auto simp: errors_of_def)
  from flags_never_cleared[OF r, of 2] t have "isTrueNode (h' 2)"
    by (simp add: flags_le_def)
  with r t show ?thesis by (simp add: heap_of_def)
qed

text \<open>
  Against claim C7 as stated: the first edge call of this sequence, \<open>AddEdge r r\<close>,
  names \<open>r\<close> (0) as its \<open>from\<close> node and is rejected; the root is the \<open>from\<close> node
  \<open>f\<close> (3) of the second.
\<close>

theorem root_is_not_first_from:
  "errors_of (build demo_heap [register_all, OpAddEdge 0 0, OpAddEdge 3 7]) =
     Some [None, Some CircularReference, None]
   \<and> from_of (OpAddEdge 0 0) = Some 0
   \<and> root (workflow_of (build demo_heap [register_all, OpAddEdge 0 0])) = None
   \<and> root (workflow_of (build demo_heap [register_all, OpAddEdge 0 0, OpAddEdge 3 7])) = Some 3"
  by code_simp

text \<open>
  Claim C7 (as amended).  Once the root is set, no sequence of construction calls
  changes it.  While it is unset, calls that return from a check placed before
  \<open>assignRoot\<close> leave it unset, and the first edge call that then succeeds makes its
  \<open>from\<close> node the root, which it remains after all later calls.
\<close>

theorem root_set_once:
  "(run h w cs = Some (es, h', w') \<and> root w = Some r \<longrightarrow> root w' = Some r)
   \<and> (run h w (pre @ c # post) = Some (es2, h2, w2) \<and> root w = None
        \<and> list_all2 stopped_before_assignRoot pre (take (length pre) es2)
        \<and> es2 ! length pre = None \<and> from_of c = Some f
      \<longrightarrow> root w2 = Some f)"
proof (intro conjI impI)
  assume "run h w cs = Some (es, h', w') \<and> root w = Some r"
  then show "root w' = Some r" by (auto dest: run_root_kept)
next
  assume a: "run h w (pre @ c # post) = Some (es2, h2, w2) \<and> root w = None
        \<and> list_all2 stopped_before_assignRoot pre (take (length pre) es2)
        \<and> es2 ! length pre = None \<and> from_of c = Some f"
  then obtain ea ha wa eb where pre: "run h w pre = Some (ea, ha, wa)"
    and rest: "run ha wa (c # post) = Some (eb, h2, w2)"
    and es2: "es2 = ea @ eb" and len: "length ea = length pre"
    using run_append by blast
  from rest obtain e hb wb ec where c: "apply_op ha wa c = Some (e, hb, wb)"
    and post: "run hb wb post = Some (ec, h2, w2)" and eb: "eb = e # ec"
    by (rule run_Cons)
  from a es2 len have "list_all2 stopped_before_assignRoot pre ea" by simp
  from run_stopped[OF pre this] a have unset: "root wa = None" by simp
  from a es2 len eb have "e = None" by (simp add: nth_append)
  with c have "apply_op ha wa c = Some (None, hb, wb)" by simp
  from apply_op_sets_root[OF this _ unset] a have "root wb = Some f" by simp
  from run_root_kept[OF post this] show "root w2 = Some f" .
qed

theorem root_set_once_witness:
  "root (workflow_of (build demo_heap
      [register_all, OpAddEdge 0 0, OpAddEdge 3 7, OpAddEdge 7 0, OpAddParallelEdge 0 6 [4, 5]]))
     = Some 3"
proof -
  let ?pre = "[register_all, OpAddEdge 0 0]"
  let ?post = "[OpAddEdge 7 0, OpAddParallelEdge 0 6 [4, 5]]"
  let ?r = "build demo_heap (?pre @ OpAddEdge 3 7 # ?post)"
  have "errors_of ?r = Some [None, Some CircularReference, None, None, None]" by code_simp
  then obtain h2 w2 where
    r: "?r = Some ([None, Some CircularReference, None, None, None], h2, w2)"
    by (cases ?r) (auto simp: errors_of_def)
  then have run: "run demo_heap (NewWorkflow ''demo'') (?pre @ OpAddEdge 3 7 # ?post) =
      Some ([None, Some CircularReference, None, None, None], h2, w2)"
    by (simp add: build_def)
  have "root w2 = Some 3"
    using root_set_once[where h = demo_heap and w = "NewWorkflow ''demo''" and pre = "?pre"
        and c = "OpAddEdge 3 7" and post = "?post" and f = 3
        and ?es2.0 = "[None, Some CircularReference, None, None, None]"
        and ?h2.0 = h2 and ?w2.0 = w2] run
    by (simp add: NewWorkflow_def register_all_def)
  with r show ?thesis by (simp add: workflow_of_def)
qed

text \<open>
  Against claim C8 as stated: after \<open>AddEdge r t\<close> the node \<open>r\<close> has an adjacency
  group; a second \<open>AddEdge r t\<close> is stopped by \<open>isCircular\<close>, which runs first and finds
  \<open>r\<close> among the predecessors of \<open>t\<close>: the error is a cycle error.
\<close>

theorem second_AddEdge_reports_cycle:
  "errors_of (build demo_heap [register_all, OpAddEdge 0 7]) = Some [None, None]
   \<and> hasGroup (workflow_of (build demo_heap [register_all, OpAddEdge 0 7])) ''r''
   \<and> errors_of (build demo_heap [register_all, OpAddEdge 0 7, OpAddEdge 0 7]) =
        Some [None, None, Some (CircularDetection ''r'' ''t'')]
   \<and> kind_of (CircularDetection ''r'' ''t'') = CycleError"
  by code_simp

text \<open>
  Claim C8 (as amended).  \<open>AddEdge\<close> from a node that has an adjacency group never
  succeeds.  Its checks run in this order: when a node is not registered it returns the
  error of kind \<open>ValidationError\<close>; else when \<open>isCircular\<close> reports an error (\<open>to\<close> has
  the key of the root, or \<open>from\<close> is among the recorded predecessors of \<open>to\<close>) or the
  two keys are equal, it returns that error, of kind \<open>CycleError\<close>; else, when the
  mutex is free, it returns the error of kind \<open>StructuralError\<close>.  The first three
  returns leave the nodes and the workflow as they were.  \<open>AddConditionalEdge\<close> and
  \<open>AddParallelEdge\<close> never return the structural error, and the error they return
  does not depend on the adjacency map.
\<close>

theorem AddEdge_from_node_with_group:
  "(hasGroup w (key (h f)) \<longrightarrow> AddEdge h w f t \<noteq> Some (None, h', w'))
   \<and> (hasGroup w (key (h f)) \<and> validateNode h w [f, t] \<and> isCircular h w t f = None
        \<and> key (h f) \<noteq> key (h t) \<and> \<not> cLock w
      \<longrightarrow> map_option fst (AddEdge h w f t) = Some (Some UseAddParallelEdge)
          \<and> kind_of UseAddParallelEdge = StructuralError)
   \<and> map_option fst (AddConditionalEdge h (w\<lparr>nodes := m\<rparr>) f c tn fn) =
       map_option fst (AddConditionalEdge h w f c tn fn)
   \<and> map_option fst (AddParallelEdge h (w\<lparr>nodes := m\<rparr>) f a ps) =
       map_option fst (AddParallelEdge h w f a ps)
   \<and> (\<not> validateNode h w [f, t] \<longrightarrow>
        AddEdge h w f t = Some (Some NotRegistered, h, w)
        \<and> kind_of NotRegistered = ValidationError)
   \<and> (validateNode h w [f, t] \<and> isCircular h w t f = Some e \<longrightarrow>
        AddEdge h w f t = Some (Some e, h, w) \<and> kind_of e = CycleError)
   \<and> (validateNode h w [f, t] \<and> isCircular h w t f = None \<and> key (h f) = key (h t) \<longrightarrow>
        AddEdge h w f t = Some (Some CircularReference, h, w)
        \<and> kind_of CircularReference = CycleError)
   \<and> (isCircular h w t f = None \<longleftrightarrow>
        (\<forall>r. root w = Some r \<longrightarrow> key (h t) \<noteq> key (h r)) \<and>
        (\<forall>froms. destinations w (key (h t)) = Some froms \<longrightarrow>
           key (h f) \<notin> (\<lambda>n. key (h n)) ` set froms))
   \<and> AddConditionalEdge h w f c tn fn \<noteq> Some (Some UseAddParallelEdge, h', w')
   \<and> AddParallelEdge h w f a ps \<noteq> Some (Some UseAddParallelEdge, h', w')"
proof (intro conjI impI)
  show "isCircular h w t f = None \<longleftrightarrow>
        (\<forall>r. root w = Some r \<longrightarrow> key (h t) \<noteq> key (h r)) \<and>
        (\<forall>froms. destinations w (key (h t)) = Some froms \<longrightarrow>
           key (h f) \<notin> (\<lambda>n. key (h n)) ` set froms)"
    by (rule isCircular_None)
next
  assume "validateNode h w [f, t] \<and> isCircular h w t f = Some e"
  then show "AddEdge h w f t = Some (Some e, h, w)" and "kind_of e = CycleError"
    using AddEdge_cycle by blast+
next
  assume "validateNode h w [f, t] \<and> isCircular h w t f = None \<and> key (h f) = key (h t)"
  then show "AddEdge h w f t = Some (Some CircularReference, h, w)"
    using AddEdge_same_key by blast
qed (simp_all add: AddEdge_group_no_success AddEdge_group_error
       AddConditionalEdge_nodes_irrelevant AddParallelEdge_nodes_irrelevant
       AddEdge_not_registered AddEdge_same_key
       AddConditionalEdge_not_structural AddParallelEdge_not_structural)

text \<open>
  With the group of \<open>r\<close> in place and all nodes registered, \<open>AddEdge r f\<close> returns the
  structural error, \<open>AddEdge r t\<close> the cycle error of \<open>isCircular\<close>, and \<open>AddEdge t t\<close> the
  cycle error for equal keys; with only \<open>r\<close> and \<open>t\<close> registered, \<open>AddEdge r f\<close> returns
  the registration error.  \<open>AddConditionalEdge r c s f\<close> and \<open>AddParallelEdge r g [x, y]\<close>
  succeed from \<open>r\<close>.
\<close>

theorem AddEdge_from_node_with_group_witness:
  "map_option fst (AddEdge (heap_of (build demo_heap [register_all, OpAddEdge 0 7]))
      (workflow_of (build demo_heap [register_all, OpAddEdge 0 7])) 0 3) =
     Some (Some UseAddParallelEdge)
   \<and> errors_of (build demo_heap [register_all, OpAddEdge 0 7, OpAddConditionalEdge 0 1 2 3]) =
        Some [None, None, None]
   \<and> errors_of (build demo_heap [register_all, OpAddEdge 0 7, OpAddParallelEdge 0 6 [4, 5]]) =
        Some [None, None, None]
   \<and> map_option fst (AddEdge (heap_of (build demo_heap [register_all, OpAddEdge 0 7]))
      (workflow_of (build demo_heap [register_all, OpAddEdge 0 7])) 0 7) =
     Some (Some (CircularDetection ''r'' ''t''))
   \<and> map_option fst (AddEdge (heap_of (build demo_heap [register_all, OpAddEdge 0 7]))
      (workflow_of (build demo_heap [register_all, OpAddEdge 0 7])) 7 7) =
     Some (Some CircularReference)
   \<and> map_option fst (AddEdge (heap_of (build demo_heap [OpAddNode [0, 7], OpAddEdge 0 7]))
      (workflow_of (build demo_heap [OpAddNode [0, 7], OpAddEdge 0 7])) 0 3) =
     Some (Some NotRegistered)"
proof -
  let ?h = "heap_of (build demo_heap [register_all, OpAddEdge 0 7])"
  let ?w = "workflow_of (build demo_heap [register_all, OpAddEdge 0 7])"
  let ?h2 = "heap_of (build demo_heap [OpAddNode [0, 7], OpAddEdge 0 7])"
  let ?w2 = "workflow_of (build demo_heap [OpAddNode [0, 7], OpAddEdge 0 7])"
  have g: "hasGroup ?w (key (?h 0))" by code_simp
  have v: "validateNode ?h ?w [0, 3]" by code_simp
  have c: "isCircular ?h ?w 3 0 = None" by code_simp
  have k: "key (?h 0) \<noteq> key (?h 3)" by code_simp
  have l: "\<not> cLock ?w" by code_simp
  have v7: "validateNode ?h ?w [0, 7]" and c7: "isCircular ?h ?w 7 0 = Some (CircularDetection ''r'' ''t'')"
    by code_simp+
  have v77: "validateNode ?h ?w [7, 7]" and c77: "isCircular ?h ?w 7 7 = None"
    and k77: "key (?h 7) = key (?h 7)"
    by code_simp+
  have nv: "\<not> validateNode ?h2 ?w2 [0, 3]" by code_simp
  have s1: "map_option fst (AddEdge ?h ?w 0 3) = Some (Some UseAddParallelEdge)"
    using AddEdge_from_node_with_group[where h = "?h" and w = "?w" and f = 0 and t = 3]
      g v c k l
    by blast
  have "AddEdge ?h ?w 0 7 = Some (Some (CircularDetection ''r'' ''t''), ?h, ?w)"
    using AddEdge_from_node_with_group[where h = "?h" and w = "?w" and f = 0 and t = 7
        and e = "CircularDetection ''r'' ''t''"]
      v7 c7
    by blast
  then have s2: "map_option fst (AddEdge ?h ?w 0 7) = Some (Some (CircularDetection ''r'' ''t''))"
    by (simp only: option.map fst_conv)
  have "AddEdge ?h ?w 7 7 = Some (Some CircularReference, ?h, ?w)"
    using AddEdge_from_node_with_group[where h = "?h" and w = "?w" and f = 7 and t = 7]
      v77 c77 k77
    by blast
  then have s3: "map_option fst (AddEdge ?h ?w 7 7) = Some (Some CircularReference)"
    by (simp only: option.map fst_conv)
  have "AddEdge ?h2 ?w2 0 3 = Some (Some NotRegistered, ?h2, ?w2)"
    using AddEdge_from_node_with_group[where h = "?h2" and w = "?w2" and f = 0 and t = 3] nv
    by blast
  then have s4: "map_option fst (AddEdge ?h2 ?w2 0 3) = Some (Some NotRegistered)"
    by (simp only: option.map fst_conv)
  have s5:
    "errors_of (build demo_heap [register_all, OpAddEdge 0 7, OpAddConditionalEdge 0 1 2 3]) =
       Some [None, None, None]"
    and s6:
    "errors_of (build demo_heap [register_all, OpAddEdge 0 7, OpAddParallelEdge 0 6 [4, 5]]) =
       Some [None, None, None]"
    by code_simp+
  from s1 s5 s6 s2 s3 s4 show ?thesis by blast
qed

section \<open>Execution: the claims\<close>

text \<open>
  Claim C1: the aggregate's input binds each branch name to the result of that
  branch's own action, whatever the order in which the branches complete.  The code
  binds the \<open>i\<close>-th branch key to the \<open>i\<close>-th value received from the channel, so
  which result a branch name gets depends on the order in which the branch goroutines
  send.  In the demo workflow branch \<open>x\<close> (node 4) produces \<open>v-x\<close>; when branch \<open>y\<close>
  sends first, the aggregate finds \<open>v-y\<close> under the key \<open>x\<close>, and \<open>Execute\<close> returns a
  different result for each of the two orders.
\<close>

theorem aggregate_input_follows_arrival_order:
  "errors_of demo_run = Some [None, None, None, None, None]
   \<and> next_nodes (heap_of demo_run 2) = [4, 5]
   \<and> fst (action (heap_of demo_run 4) [''data'' \<mapsto> ''v'']) = ''v-x''
   \<and> fst (action (heap_of demo_run 5) [''data'' \<mapsto> ''v'']) = ''v-y''
   \<and> aggregateInput (heap_of demo_run) [4, 5] ''v'' [1, 0] ''x'' = Some ''v-y''
   \<and> aggregateInput (heap_of demo_run) [4, 5] ''v'' [1, 0] ''y'' = Some ''v-x''
   \<and> Execute 5 (heap_of demo_run) (workflow_of demo_run) ''p'' [[0, 1]] =
         Some (Returned ''p-r-s[p-r-s-x,p-r-s-y]-t'' None, [])
   \<and> Execute 5 (heap_of demo_run) (workflow_of demo_run) ''p'' [[1, 0]] =
         Some (Returned ''p-r-s[p-r-s-y,p-r-s-x]-t'' None, [])"
  by code_simp

text \<open>
  Claim C4.  A conditional node whose action succeeds passes the payload it received,
  not its own output, to \<open>next[0]\<close> when the output parses as true and to \<open>next[1]\<close>
  when it parses as false or does not parse; the chosen node is entered through the
  three-way check of \<open>executeCondition\<close>.
\<close>

theorem executeCondition_routes_payload:
  assumes "action (h c) [''data'' \<mapsto> p] = (res, None)"
      and "next_nodes (h c) = t # f # rest"
  shows "executeCondition (Suc fuel) h c p s =
           (if ParseBool res = Some True
            then (if isParallelNode (h t) then executeParallel fuel h t p s
                  else if isConditionalNode (h t) then executeCondition fuel h t p s
                  else execute fuel h t p s)
            else (if isParallelNode (h f) then executeParallel fuel h f p s
                  else if isConditionalNode (h f) then executeCondition fuel h f p s
                  else execute fuel h f p s))"
  using assms by (cases "ParseBool res") simp_all

text \<open>
  In the demo workflow the condition \<open>c\<close> answers \<open>true\<close> and the fan-out \<open>s\<close> receives
  the payload \<open>p-r\<close>; with the answers \<open>false\<close> and \<open>maybe\<close> the node \<open>f\<close> receives it.
\<close>

theorem executeCondition_routes_payload_witness:
  "executeCondition (Suc 3) (heap_of demo_run) 1 ''p-r'' [] =
     Some (Returned ''p-r-s[p-r-s-x,p-r-s-y]-t'' None, [])
   \<and> executeCondition (Suc 3) (heap_of (build (demo_heap_with 1 (constAct ''false'')) demo_ops))
        1 ''p-r'' [] = Some (Returned ''p-r-f-t'' None, [])
   \<and> executeCondition (Suc 3) (heap_of (build (demo_heap_with 1 (constAct ''maybe'')) demo_ops))
        1 ''p-r'' [] = Some (Returned ''p-r-f-t'' None, [])"
proof -
  let ?h1 = "heap_of demo_run"
  let ?h2 = "heap_of (build (demo_heap_with 1 (constAct ''false'')) demo_ops)"
  let ?h3 = "heap_of (build (demo_heap_with 1 (constAct ''maybe'')) demo_ops)"
  have a1: "action (?h1 1) [''data'' \<mapsto> ''p-r''] = (''true'', None)" by code_simp
  have a2: "action (?h2 1) [''data'' \<mapsto> ''p-r''] = (''false'', None)" by code_simp
  have a3: "action (?h3 1) [''data'' \<mapsto> ''p-r''] = (''maybe'', None)" by code_simp
  have n1: "next_nodes (?h1 1) = 2 # 3 # []" by code_simp
  have n2: "next_nodes (?h2 1) = 2 # 3 # []" by code_simp
  have n3: "next_nodes (?h3 1) = 2 # 3 # []" by code_simp
  have p: "ParseBool ''true'' = Some True" "ParseBool ''false'' \<noteq> Some True"
    "ParseBool ''maybe'' \<noteq> Some True"
    by code_simp+
  have f1: "isParallelNode (?h1 2)" by code_simp
  have f2: "\<not> isParallelNode (?h2 3)" "\<not> isConditionalNode (?h2 3)" by code_simp+
  have f3: "\<not> isParallelNode (?h3 3)" "\<not> isConditionalNode (?h3 3)" by code_simp+
  have r1: "executeParallel 3 ?h1 2 ''p-r'' [] =
              Some (Returned ''p-r-s[p-r-s-x,p-r-s-y]-t'' None, [])" by code_simp
  have r2: "execute 3 ?h2 3 ''p-r'' [] = Some (Returned ''p-r-f-t'' None, [])" by code_simp
  have r3: "execute 3 ?h3 3 ''p-r'' [] = Some (Returned ''p-r-f-t'' None, [])" by code_simp
  show ?thesis
    using executeCondition_routes_payload[where h="?h1" and c=1 and fuel=3 and s="[]", OF a1 n1]
          executeCondition_routes_payload[where h="?h2" and c=1 and fuel=3 and s="[]", OF a2 n2]
          executeCondition_routes_payload[where h="?h3" and c=1 and fuel=3 and s="[]", OF a3 n3]
    by (simp only: p f1 f2 f3 r1 r2 r3 if_True if_False simp_thms)
qed

text \<open>
  Claim C6.  In \<open>executeParallel\<close> an error of the source's own action, or of the
  aggregate's action, is returned at once with no result, and \<open>Execute\<close> returns that
  error when the call is one of those it makes.  The errors of the branch actions are
  dropped.  The aggregate's input is built from the keys of the branches and the
  results of their actions alone: it binds \<open>data\<close> to the source's output and the
  \<open>i\<close>-th branch key to the \<open>i\<close>-th result to arrive; every branch's result arrives,
  so that with distinct branch keys other than \<open>data\<close> every branch's result, empty or
  not, is in the input.  Once the aggregate has succeeded the outcome is that of its
  first successor on the aggregate's output.
\<close>

theorem executeParallel_failures:
  "next_order (length (next_nodes (h v))) s = (ord, s1) \<Longrightarrow>
   (action (h v) [''data'' \<mapsto> p] = (res, Some e) \<longrightarrow>
      executeParallel (Suc fuel) h v p s = Some (Returned [] (Some e), s))
   \<and> (action (h v) [''data'' \<mapsto> p] = (res, None) \<and> aggregateNode (h v) = Some a
        \<and> action (h a) (aggregateInput h (next_nodes (h v)) res ord) = (out, Some e) \<longrightarrow>
      executeParallel (Suc fuel) h v p s = Some (Returned [] (Some e), s1))
   \<and> (action (h v) [''data'' \<mapsto> p] = (res, None) \<and> aggregateNode (h v) = Some a
        \<and> action (h a) (aggregateInput h (next_nodes (h v)) res ord) = (out, None)
        \<and> next_nodes (h a) = n0 # rest \<longrightarrow>
      executeParallel (Suc fuel) h v p s =
        (if isConditionalNode (h n0) then executeCondition fuel h n0 out s1
         else if isParallelNode (h n0) then executeParallel fuel h n0 out s1
         else execute fuel h n0 out s1))
   \<and> ((\<forall>b \<in> set bs. key (h2 b) = key (h b)
           \<and> fst (action (h2 b) [''data'' \<mapsto> res]) = fst (action (h b) [''data'' \<mapsto> res])) \<longrightarrow>
      aggregateInput h2 bs res ord = aggregateInput h bs res ord)
   \<and> aggregateInput h (next_nodes (h v)) res ord ''data'' = Some res
   \<and> aggregateInput h (next_nodes (h v)) res ord =
        (map_of (rev (zip (map (\<lambda>n. key (h n)) (next_nodes (h v)))
           (map (\<lambda>i. fst (action (h (next_nodes (h v) ! i)) [''data'' \<mapsto> res])) ord))))
        (''data'' \<mapsto> res)
   \<and> (\<forall>j < length (next_nodes (h v)). \<exists>i < length (next_nodes (h v)). ord ! i = j)
   \<and> (distinct (map (\<lambda>n. key (h n)) (next_nodes (h v)))
        \<and> ''data'' \<notin> set (map (\<lambda>n. key (h n)) (next_nodes (h v))) \<longrightarrow>
      (\<forall>i < length (next_nodes (h v)).
         aggregateInput h (next_nodes (h v)) res ord (key (h (next_nodes (h v) ! i))) =
           Some (fst (action (h (next_nodes (h v) ! (ord ! i))) [''data'' \<mapsto> res])))
      \<and> (\<forall>j < length (next_nodes (h v)). \<exists>i < length (next_nodes (h v)).
         aggregateInput h (next_nodes (h v)) res ord (key (h (next_nodes (h v) ! i))) =
           Some (fst (action (h (next_nodes (h v) ! j)) [''data'' \<mapsto> res]))))
   \<and> (root w = Some r
        \<and> (invokes h)\<^sup>*\<^sup>* (ExecuteCall fuel0 r p0 s0) (ParallelCall (Suc fuel) v p s)
        \<and> action (h v) [''data'' \<mapsto> p] = (res, Some e) \<longrightarrow>
      Execute fuel0 h w p0 s0 = Some (Returned [] (Some e), s))
   \<and> (root w = Some r
        \<and> (invokes h)\<^sup>*\<^sup>* (ExecuteCall fuel0 r p0 s0) (ParallelCall (Suc fuel) v p s)
        \<and> action (h v) [''data'' \<mapsto> p] = (res, None) \<and> aggregateNode (h v) = Some a
        \<and> action (h a) (aggregateInput h (next_nodes (h v)) res ord) = (out, Some e) \<longrightarrow>
      Execute fuel0 h w p0 s0 = Some (Returned [] (Some e), s1))"
proof -
  assume no: "next_order (length (next_nodes (h v))) s = (ord, s1)"
  let ?bs = "next_nodes (h v)"
  let ?d = "[''data'' \<mapsto> res]"
  from next_order_valid[OF no] have len: "length ord = length ?bs" and dist: "distinct ord"
    and set: "set ord = {0..<length ?bs}"
    by simp_all
  from set have bound: "\<forall>i \<in> set ord. i < length ?bs" by simp
  have arrive: "\<forall>j < length ?bs. \<exists>i < length ?bs. ord ! i = j"
  proof (intro allI impI)
    fix j assume "j < length ?bs"
    with set have "j \<in> set ord" by simp
    then obtain i where "i < length ord" and "ord ! i = j" by (auto simp: in_set_conv_nth)
    with len show "\<exists>i < length ?bs. ord ! i = j" by auto
  qed
  have c1: "action (h v) [''data'' \<mapsto> p] = (res, Some e) \<longrightarrow>
      executeParallel (Suc fuel) h v p s = Some (Returned [] (Some e), s)"
    by simp
  have c2: "action (h v) [''data'' \<mapsto> p] = (res, None) \<and> aggregateNode (h v) = Some a
        \<and> action (h a) (aggregateInput h ?bs res ord) = (out, Some e) \<longrightarrow>
      executeParallel (Suc fuel) h v p s = Some (Returned [] (Some e), s1)"
    using no by simp
  have c3: "action (h v) [''data'' \<mapsto> p] = (res, None) \<and> aggregateNode (h v) = Some a
        \<and> action (h a) (aggregateInput h ?bs res ord) = (out, None)
        \<and> next_nodes (h a) = n0 # rest \<longrightarrow>
      executeParallel (Suc fuel) h v p s =
        (if isConditionalNode (h n0) then executeCondition fuel h n0 out s1
         else if isParallelNode (h n0) then executeParallel fuel h n0 out s1
         else execute fuel h n0 out s1)"
    using no by simp
  have c4: "(\<forall>b \<in> set bs. key (h2 b) = key (h b)
           \<and> fst (action (h2 b) ?d) = fst (action (h b) ?d)) \<longrightarrow>
      aggregateInput h2 bs res ord = aggregateInput h bs res ord"
  proof
    assume "\<forall>b \<in> set bs. key (h2 b) = key (h b)
           \<and> fst (action (h2 b) ?d) = fst (action (h b) ?d)"
    then have m1: "map (\<lambda>n. fst (action (h2 n) ?d)) bs = map (\<lambda>n. fst (action (h n) ?d)) bs"
      and m2: "map (\<lambda>n. key (h2 n)) bs = map (\<lambda>n. key (h n)) bs"
      by simp_all
    show "aggregateInput h2 bs res ord = aggregateInput h bs res ord"
      unfolding aggregateInput_def m1 m2 by (rule refl)
  qed
  have c5: "aggregateInput h ?bs res ord ''data'' = Some res"
    by (rule aggregateInput_data)
  have c6: "aggregateInput h ?bs res ord =
        (map_of (rev (zip (map (\<lambda>n. key (h n)) ?bs)
           (map (\<lambda>i. fst (action (h (?bs ! i)) ?d)) ord))))(''data'' \<mapsto> res)"
    by (rule aggregateInput_map_of[OF bound])
  have c8: "distinct (map (\<lambda>n. key (h n)) ?bs) \<and> ''data'' \<notin> set (map (\<lambda>n. key (h n)) ?bs) \<longrightarrow>
      (\<forall>i < length ?bs.
         aggregateInput h ?bs res ord (key (h (?bs ! i))) =
           Some (fst (action (h (?bs ! (ord ! i))) ?d)))
      \<and> (\<forall>j < length ?bs. \<exists>i < length ?bs.
         aggregateInput h ?bs res ord (key (h (?bs ! i))) =
           Some (fst (action (h (?bs ! j)) ?d)))"
  proof (intro impI)
    assume k: "distinct (map (\<lambda>n. key (h n)) ?bs)
      \<and> ''data'' \<notin> set (map (\<lambda>n. key (h n)) ?bs)"
    have bind: "\<forall>i < length ?bs.
         aggregateInput h ?bs res ord (key (h (?bs ! i))) =
           Some (fst (action (h (?bs ! (ord ! i))) ?d))"
      using k len bound by (blast intro: aggregateInput_key)
    have "\<forall>j < length ?bs. \<exists>i < length ?bs.
         aggregateInput h ?bs res ord (key (h (?bs ! i))) =
           Some (fst (action (h (?bs ! j)) ?d))"
    proof (intro allI impI)
      fix j assume "j < length ?bs"
      with arrive obtain i where i: "i < length ?bs" and "ord ! i = j" by blast
      with bind show "\<exists>i < length ?bs.
         aggregateInput h ?bs res ord (key (h (?bs ! i))) =
           Some (fst (action (h (?bs ! j)) ?d))"
        by blast
    qed
    with bind show "(\<forall>i < length ?bs.
         aggregateInput h ?bs res ord (key (h (?bs ! i))) =
           Some (fst (action (h (?bs ! (ord ! i))) ?d)))
      \<and> (\<forall>j < length ?bs. \<exists>i < length ?bs.
         aggregateInput h ?bs res ord (key (h (?bs ! i))) =
           Some (fst (action (h (?bs ! j)) ?d)))"
      by (rule conjI)
  qed
  have lift: "\<And>x. root w = Some r \<Longrightarrow>
      (invokes h)\<^sup>*\<^sup>* (ExecuteCall fuel0 r p0 s0) (ParallelCall (Suc fuel) v p s) \<Longrightarrow>
      executeParallel (Suc fuel) h v p s = Some (Returned [] (Some e), x) \<Longrightarrow>
      Execute fuel0 h w p0 s0 = Some (Returned [] (Some e), x)"
  proof -
    fix x
    assume r: "root w = Some r"
      and ch: "(invokes h)\<^sup>*\<^sup>* (ExecuteCall fuel0 r p0 s0) (ParallelCall (Suc fuel) v p s)"
      and ex: "executeParallel (Suc fuel) h v p s = Some (Returned [] (Some e), x)"
    from ex have o: "outcome_of h (ParallelCall (Suc fuel) v p s) =
        Some (Returned [] (Some e), x)"
      by (simp only: outcome_of.simps)
    then have "stops (outcome_of h (ParallelCall (Suc fuel) v p s))"
      by (simp only: stops.simps)
    from invokes_star_stops[OF ch this] o r
    show "Execute fuel0 h w p0 s0 = Some (Returned [] (Some e), x)"
      by (simp only: Execute_outcome_of)
  qed
  have c9: "root w = Some r
        \<and> (invokes h)\<^sup>*\<^sup>* (ExecuteCall fuel0 r p0 s0) (ParallelCall (Suc fuel) v p s)
        \<and> action (h v) [''data'' \<mapsto> p] = (res, Some e) \<longrightarrow>
      Execute fuel0 h w p0 s0 = Some (Returned [] (Some e), s)"
    using c1 lift by blast
  have c10: "root w = Some r
        \<and> (invokes h)\<^sup>*\<^sup>* (ExecuteCall fuel0 r p0 s0) (ParallelCall (Suc fuel) v p s)
        \<and> action (h v) [''data'' \<mapsto> p] = (res, None) \<and> aggregateNode (h v) = Some a
        \<and> action (h a) (aggregateInput h ?bs res ord) = (out, Some e) \<longrightarrow>
      Execute fuel0 h w p0 s0 = Some (Returned [] (Some e), s1)"
    using c2 lift by blast
  from c1 c2 c3 c4 c5 c6 arrive c8 c9 c10 show ?thesis by blast
qed

text \<open>
  In the demo workflow: the source \<open>s\<close> fails; the aggregate \<open>g\<close> fails; branch \<open>x\<close>
  fails with \<open>boom\<close> and the fan-out still returns a result without error, built from
  the empty result of \<open>x\<close>, which the aggregate finds under the key \<open>x\<close>.  \<open>Execute\<close>
  returns the error of the source, the error of the aggregate, and a result in spite
  of the failure of the branch.
\<close>

theorem executeParallel_failures_witness:
  "executeParallel (Suc 1) (heap_of (build (demo_heap_with 2 (failAct ''src'')) demo_ops))
      2 ''p-r'' [] = Some (Returned [] (Some (ActionError ''src'')), [])
   \<and> executeParallel (Suc 1) (heap_of (build (demo_heap_with 6 (failAct ''agg'')) demo_ops))
      2 ''p-r'' [] = Some (Returned [] (Some (ActionError ''agg'')), [])
   \<and> action (heap_of (build (demo_heap_with 4 (failAct ''boom'')) demo_ops) 4)
        [''data'' \<mapsto> ''p-r-s''] = ([], Some (ActionError ''boom''))
   \<and> executeParallel (Suc 1) (heap_of (build (demo_heap_with 4 (failAct ''boom'')) demo_ops))
      2 ''p-r'' [] = Some (Returned ''p-r-s[,p-r-s-y]-t'' None, [])
   \<and> aggregateInput (heap_of (build (demo_heap_with 4 (failAct ''boom'')) demo_ops))
        [4, 5] ''p-r-s'' [0, 1] =
      aggregateInput (heap_of (build (demo_heap_with 4 (constAct [])) demo_ops))
        [4, 5] ''p-r-s'' [0, 1]
   \<and> aggregateInput (heap_of (build (demo_heap_with 4 (failAct ''boom'')) demo_ops))
        [4, 5] ''p-r-s'' [0, 1] ''x'' = Some []
   \<and> aggregateInput (heap_of (build (demo_heap_with 4 (failAct ''boom'')) demo_ops))
        [4, 5] ''p-r-s'' [0, 1] ''y'' = Some ''p-r-s-y''
   \<and> aggregateInput (heap_of (build (demo_heap_with 4 (failAct ''boom'')) demo_ops))
        [4, 5] ''p-r-s'' [0, 1] ''data'' = Some ''p-r-s''
   \<and> Execute (Suc (Suc (Suc 1))) (heap_of (build (demo_heap_with 2 (failAct ''src'')) demo_ops))
        (workflow_of (build (demo_heap_with 2 (failAct ''src'')) demo_ops)) ''p'' [] =
        Some (Returned [] (Some (ActionError ''src'')), [])
   \<and> Execute (Suc (Suc (Suc 1))) (heap_of (build (demo_heap_with 6 (failAct ''agg'')) demo_ops))
        (workflow_of (build (demo_heap_with 6 (failAct ''agg'')) demo_ops)) ''p'' [] =
        Some (Returned [] (Some (ActionError ''agg'')), [])
   \<and> Execute (Suc (Suc (Suc 1))) (heap_of (build (demo_heap_with 4 (failAct ''boom'')) demo_ops))
        (workflow_of (build (demo_heap_with 4 (failAct ''boom'')) demo_ops)) ''p'' [] =
        Some (Returned ''p-r-s[,p-r-s-y]-t'' None, [])"
proof -
  let ?hs = "heap_of (build (demo_heap_with 2 (failAct ''src'')) demo_ops)"
  let ?ws = "workflow_of (build (demo_heap_with 2 (failAct ''src'')) demo_ops)"
  let ?hg = "heap_of (build (demo_heap_with 6 (failAct ''agg'')) demo_ops)"
  let ?wg = "workflow_of (build (demo_heap_with 6 (failAct ''agg'')) demo_ops)"
  let ?hb = "heap_of (build (demo_heap_with 4 (failAct ''boom'')) demo_ops)"
  let ?wb = "workflow_of (build (demo_heap_with 4 (failAct ''boom'')) demo_ops)"
  let ?hc = "heap_of (build (demo_heap_with 4 (constAct [])) demo_ops)"
  have os: "next_order (length (next_nodes (?hs 2))) [] = ([0, 1], [])" by code_simp
  have og: "next_order (length (next_nodes (?hg 2))) [] = ([0, 1], [])" by code_simp
  have ob: "next_order (length (next_nodes (?hb 2))) [] = ([0, 1], [])" by code_simp
  have oc: "next_order (length (next_nodes (?hc 2))) [] = ([0, 1], [])" by code_simp
  have s1: "action (?hs 2) [''data'' \<mapsto> ''p-r''] = ([], Some (ActionError ''src''))"
    by code_simp
  have g1: "action (?hg 2) [''data'' \<mapsto> ''p-r''] = (''p-r-s'', None)"
    and g2: "aggregateNode (?hg 2) = Some 6"
    and g3: "action (?hg 6) (aggregateInput ?hg (next_nodes (?hg 2)) ''p-r-s'' [0, 1]) =
               ([], Some (ActionError ''agg''))"
    by code_simp+
  have b0: "action (?hb 4) [''data'' \<mapsto> ''p-r-s''] = ([], Some (ActionError ''boom''))"
    by code_simp
  have b1: "action (?hb 2) [''data'' \<mapsto> ''p-r''] = (''p-r-s'', None)"
    and b2: "aggregateNode (?hb 2) = Some 6"
    and b3: "action (?hb 6) (aggregateInput ?hb (next_nodes (?hb 2)) ''p-r-s'' [0, 1]) =
               (''p-r-s[,p-r-s-y]'', None)"
    and b4: "next_nodes (?hb 6) = 7 # []"
    and b5: "\<not> isConditionalNode (?hb 7)" "\<not> isParallelNode (?hb 7)"
    and b6: "execute 1 ?hb 7 ''p-r-s[,p-r-s-y]'' [] =
               Some (Returned ''p-r-s[,p-r-s-y]-t'' None, [])"
    by code_simp+
  have same: "\<forall>b \<in> set [4, 5]. key (?hb b) = key (?hc b)
      \<and> fst (action (?hb b) [''data'' \<mapsto> ''p-r-s'']) = fst (action (?hc b) [''data'' \<mapsto> ''p-r-s''])"
    by code_simp
  have nb: "next_nodes (?hb 2) = [4, 5]" and kx: "key (?hb 4) = ''x''" and ky: "key (?hb 5) = ''y''"
    and b7: "action (?hb 5) [''data'' \<mapsto> ''p-r-s''] = (''p-r-s-y'', None)"
    and dk: "distinct (map (\<lambda>n. key (?hb n)) (next_nodes (?hb 2)))"
    and nd: "''data'' \<notin> set (map (\<lambda>n. key (?hb n)) (next_nodes (?hb 2)))"
    by code_simp+
  have rs: "root ?ws = Some 0" and rg: "root ?wg = Some 0" by code_simp+
  have ps: "action (?hs 0) [''data'' \<mapsto> ''p''] = (''p-r'', None)" "next_nodes (?hs 0) = 1 # []"
    "isConditionalNode (?hs 1)" "action (?hs 1) [''data'' \<mapsto> ''p-r''] = (''true'', None)"
    "ParseBool ''true'' = Some True" "next_nodes (?hs 1) = 2 # [3]" "isParallelNode (?hs 2)"
    by code_simp+
  have pg: "action (?hg 0) [''data'' \<mapsto> ''p''] = (''p-r'', None)" "next_nodes (?hg 0) = 1 # []"
    "isConditionalNode (?hg 1)" "action (?hg 1) [''data'' \<mapsto> ''p-r''] = (''true'', None)"
    "ParseBool ''true'' = Some True" "next_nodes (?hg 1) = 2 # [3]" "isParallelNode (?hg 2)"
    by code_simp+
  have chs: "(invokes ?hs)\<^sup>*\<^sup>* (ExecuteCall (Suc (Suc (Suc 1))) 0 ''p'' []) (ParallelCall (Suc 1) 2 ''p-r'' [])"
    by (rule reach_fan_out_behind_condition[where h = "?hs" and r = 0 and c = 1 and fuel = "Suc 1", OF ps])
  have chg: "(invokes ?hg)\<^sup>*\<^sup>* (ExecuteCall (Suc (Suc (Suc 1))) 0 ''p'' []) (ParallelCall (Suc 1) 2 ''p-r'' [])"
    by (rule reach_fan_out_behind_condition[where h = "?hg" and r = 0 and c = 1 and fuel = "Suc 1", OF pg])
  note ts = executeParallel_failures[where h = "?hs" and v = 2 and s = "[]" and fuel = 1
      and w = "?ws" and r = 0 and ?fuel0.0 = "Suc (Suc (Suc 1))" and ?p0.0 = "''p''" and ?s0.0 = "[]",
      OF os]
  note tg = executeParallel_failures[where h = "?hg" and v = 2 and s = "[]" and fuel = 1
      and w = "?wg" and r = 0 and ?fuel0.0 = "Suc (Suc (Suc 1))" and ?p0.0 = "''p''" and ?s0.0 = "[]",
      OF og]
  note tb = executeParallel_failures[where h = "?hb" and v = 2 and s = "[]" and fuel = 1
      and res = "''p-r-s''", OF ob]
  have e1: "executeParallel (Suc 1) ?hs 2 ''p-r'' [] =
              Some (Returned [] (Some (ActionError ''src'')), [])"
    using ts s1 by blast
  have e2: "executeParallel (Suc 1) ?hg 2 ''p-r'' [] =
              Some (Returned [] (Some (ActionError ''agg'')), [])"
    using tg g1 g2 g3 by blast
  have "executeParallel (Suc 1) ?hb 2 ''p-r'' [] =
          (if isConditionalNode (?hb 7) then executeCondition 1 ?hb 7 ''p-r-s[,p-r-s-y]'' []
           else if isParallelNode (?hb 7) then executeParallel 1 ?hb 7 ''p-r-s[,p-r-s-y]'' []
           else execute 1 ?hb 7 ''p-r-s[,p-r-s-y]'' [])"
    using tb b1 b2 b3 b4 by blast
  then have e3: "executeParallel (Suc 1) ?hb 2 ''p-r'' [] =
                   Some (Returned ''p-r-s[,p-r-s-y]-t'' None, [])"
    by (simp only: b5 b6 if_False)
  have e4: "aggregateInput ?hb [4, 5] ''p-r-s'' [0, 1] = aggregateInput ?hc [4, 5] ''p-r-s'' [0, 1]"
    using executeParallel_failures[where h = "?hc" and ?h2.0 = "?hb" and v = 2 and s = "[]"
        and bs = "[4, 5]" and res = "''p-r-s''", OF oc]
      same
    by blast
  have bind: "\<forall>i < length (next_nodes (?hb 2)).
      aggregateInput ?hb (next_nodes (?hb 2)) ''p-r-s'' [0, 1] (key (?hb (next_nodes (?hb 2) ! i))) =
        Some (fst (action (?hb (next_nodes (?hb 2) ! ([0, 1] ! i))) [''data'' \<mapsto> ''p-r-s'']))"
    using tb dk nd by blast
  have e5: "aggregateInput ?hb [4, 5] ''p-r-s'' [0, 1] ''x'' = Some []"
    using bind[rule_format, of 0] by (simp add: nb kx b0)
  have e6: "aggregateInput ?hb [4, 5] ''p-r-s'' [0, 1] ''y'' = Some ''p-r-s-y''"
    using bind[rule_format, of 1] by (simp add: nb ky b7)
  have "aggregateInput ?hb (next_nodes (?hb 2)) ''p-r-s'' [0, 1] ''data'' = Some ''p-r-s''"
    using tb by blast
  then have e7: "aggregateInput ?hb [4, 5] ''p-r-s'' [0, 1] ''data'' = Some ''p-r-s''"
    by (simp only: nb)
  have e8: "Execute (Suc (Suc (Suc 1))) ?hs ?ws ''p'' [] =
      Some (Returned [] (Some (ActionError ''src'')), [])"
    using ts rs chs s1 by blast
  have e9: "Execute (Suc (Suc (Suc 1))) ?hg ?wg ''p'' [] =
      Some (Returned [] (Some (ActionError ''agg'')), [])"
    using tg rg chg g1 g2 g3 by blast
  have e10: "Execute (Suc (Suc (Suc 1))) ?hb ?wb ''p'' [] =
      Some (Returned ''p-r-s[,p-r-s-y]-t'' None, [])"
    by code_simp
  from e1 e2 b0 e3 e4 e5 e6 e7 e8 e9 e10 show ?thesis by blast
qed

text \<open>
  Claim C9.  With the root \<open>a\<close>, the plain nodes \<open>b\<close> and \<open>c\<close> chained behind it and
  all three actions succeeding, \<open>Execute\<close> returns what \<open>c\<close> makes of what \<open>b\<close> makes of
  what \<open>a\<close> makes of the payload, each passed on under the key \<open>data\<close>.  Three units of
  fuel are enough.
\<close>

theorem chain_is_composition:
  assumes "root w = Some a"
      and "next_nodes (h a) = [b]" and "next_nodes (h b) = [c]" and "next_nodes (h c) = []"
      and "\<not> isConditionalNode (h b)" and "\<not> isParallelNode (h b)"
      and "\<not> isConditionalNode (h c)" and "\<not> isParallelNode (h c)"
      and "action (h a) [''data'' \<mapsto> p] = (ra, None)"
      and "action (h b) [''data'' \<mapsto> ra] = (rb, None)"
      and "action (h c) [''data'' \<mapsto> rb] = (rc, None)"
  shows "Execute (Suc (Suc (Suc fuel))) h w p s = Some (Returned rc None, s)"
  using assms by (simp add: Execute_def)

theorem chain_is_composition_witness:
  "errors_of chain_run = Some [None, None, None]
   \<and> Execute (Suc (Suc (Suc 0))) (heap_of chain_run) (workflow_of chain_run) ''p'' [] =
       Some (Returned ''p-r-f-t'' None, [])"
proof -
  let ?h = "heap_of chain_run"
  have e: "errors_of chain_run = Some [None, None, None]" by code_simp
  have r: "root (workflow_of chain_run) = Some 0" by code_simp
  have n: "next_nodes (?h 0) = [3]" "next_nodes (?h 3) = [7]" "next_nodes (?h 7) = []"
    by code_simp+
  have f: "\<not> isConditionalNode (?h 3)" "\<not> isParallelNode (?h 3)"
    "\<not> isConditionalNode (?h 7)" "\<not> isParallelNode (?h 7)"
    by code_simp+
  have a: "action (?h 0) [''data'' \<mapsto> ''p''] = (''p-r'', None)"
    "action (?h 3) [''data'' \<mapsto> ''p-r''] = (''p-r-f'', None)"
    "action (?h 7) [''data'' \<mapsto> ''p-r-f''] = (''p-r-f-t'', None)"
    by code_simp+
  have x: "Execute (Suc (Suc (Suc 0))) ?h (workflow_of chain_run) ''p'' [] =
             Some (Returned ''p-r-f-t'' None, [])"
    by (rule chain_is_composition[where h = "?h" and fuel = 0 and s = "[]", OF r n f a])
  from e x show ?thesis by (rule conjI)
qed

text \<open>
  Against claim C10 as stated: \<open>AddParallelEdge r g [x, y]\<close> as the first edge call makes
  the parallel source \<open>r\<close> the root, and its aggregate \<open>g\<close> has no successor.  \<open>Execute\<close>
  enters the root through \<open>execute\<close>, which runs \<open>r\<close>, \<open>x\<close> and \<open>y\<close> one after the
  other as plain nodes and never calls the aggregate: it returns a result and does not
  panic.
\<close>

theorem root_fan_out_returns:
  "errors_of root_fanout_run = Some [None, None]
   \<and> root (workflow_of root_fanout_run) = Some 0
   \<and> isParallelNode (heap_of root_fanout_run 0)
   \<and> next_nodes (heap_of root_fanout_run 0) = [4, 5]
   \<and> aggregateNode (heap_of root_fanout_run 0) = Some 6
   \<and> next_nodes (heap_of root_fanout_run 6) = []
   \<and> Execute 2 (heap_of root_fanout_run) (workflow_of root_fanout_run) ''p'' [] =
        Some (Returned ''p-r-x-y'' None, [])"
  by code_simp

text \<open>
  Claim C10 (as amended).  Whenever \<open>executeParallel\<close> runs on a parallel source whose
  aggregate has an empty \<open>next\<close> list, and the source's and the aggregate's actions
  succeed, it reads \<open>aggregateNode.next[0]\<close> and panics with an index out of range
  instead of returning the aggregate's output; and when that call of \<open>executeParallel\<close>
  is one of the calls that \<open>Execute\<close> makes, \<open>Execute\<close> panics.  The root is entered
  through \<open>execute\<close>, also when it is a parallel source.
\<close>

theorem aggregate_without_successor_panics:
  assumes "action (h v) [''data'' \<mapsto> p] = (res, None)"
      and "aggregateNode (h v) = Some a"
      and "next_order (length (next_nodes (h v))) s = (ord, s1)"
      and "action (h a) (aggregateInput h (next_nodes (h v)) res ord) = (out, None)"
      and "next_nodes (h a) = []"
  shows "executeParallel (Suc fuel) h v p s = Some (Panicked IndexOutOfRange, s1)
     \<and> (root w = Some r
          \<and> (invokes h)\<^sup>*\<^sup>* (ExecuteCall fuel0 r p0 s0) (ParallelCall (Suc fuel) v p s) \<longrightarrow>
        Execute fuel0 h w p0 s0 = Some (Panicked IndexOutOfRange, s1))
     \<and> (root w = Some r \<longrightarrow> Execute fuel0 h w p0 s0 = execute fuel0 h r p0 s0)"
proof (intro conjI impI)
  show par: "executeParallel (Suc fuel) h v p s = Some (Panicked IndexOutOfRange, s1)"
    using assms by simp
  assume a: "root w = Some r
    \<and> (invokes h)\<^sup>*\<^sup>* (ExecuteCall fuel0 r p0 s0) (ParallelCall (Suc fuel) v p s)"
  from par have o: "outcome_of h (ParallelCall (Suc fuel) v p s) =
      Some (Panicked IndexOutOfRange, s1)"
    by (simp only: outcome_of.simps)
  then have "stops (outcome_of h (ParallelCall (Suc fuel) v p s))"
    by (simp only: stops.simps)
  with a have "outcome_of h (ExecuteCall fuel0 r p0 s0) =
      outcome_of h (ParallelCall (Suc fuel) v p s)"
    by (blast intro: invokes_star_stops)
  with a o show "Execute fuel0 h w p0 s0 = Some (Panicked IndexOutOfRange, s1)"
    by (simp only: Execute_outcome_of)
next
  assume "root w = Some r"
  then show "Execute fuel0 h w p0 s0 = execute fuel0 h r p0 s0"
    by (simp add: Execute_def)
qed

text \<open>
  The workflow \<open>r \<rightarrow> s\<close> with the fan-out of \<open>s\<close> to \<open>x\<close> and \<open>y\<close> joined by \<open>g\<close>, and no
  edge out of \<open>g\<close>: \<open>execute\<close> on the root \<open>r\<close> calls \<open>executeParallel\<close> on \<open>s\<close>, and
  \<open>Execute\<close> panics.
\<close>

theorem aggregate_without_successor_panics_witness:
  "errors_of fanout_run = Some [None, None, None]
   \<and> executeParallel (Suc 1) (heap_of fanout_run) 2 ''p-r'' [] =
        Some (Panicked IndexOutOfRange, [])
   \<and> (invokes (heap_of fanout_run))\<^sup>*\<^sup>* (ExecuteCall (Suc 2) 0 ''p'' [])
        (ParallelCall (Suc 1) 2 ''p-r'' [])
   \<and> Execute (Suc 2) (heap_of fanout_run) (workflow_of fanout_run) ''p'' [] =
        Some (Panicked IndexOutOfRange, [])"
proof -
  let ?h = "heap_of fanout_run"
  have e: "errors_of fanout_run = Some [None, None, None]" by code_simp
  have r: "root (workflow_of fanout_run) = Some 0" by code_simp
  have n0: "next_nodes (?h 0) = 2 # []"
    and a0: "action (?h 0) [''data'' \<mapsto> ''p''] = (''p-r'', None)"
    and sc: "successorCall ?h 2 2 ''p-r'' [] = ParallelCall (Suc 1) 2 ''p-r'' []"
    by code_simp+
  have a: "action (?h 2) [''data'' \<mapsto> ''p-r''] = (''p-r-s'', None)"
    and g: "aggregateNode (?h 2) = Some 6"
    and ord: "next_order (length (next_nodes (?h 2))) [] = ([0, 1], [])"
    and out: "action (?h 6) (aggregateInput ?h (next_nodes (?h 2)) ''p-r-s'' [0, 1]) =
               (''p-r-s[p-r-s-x,p-r-s-y]'', None)"
    and last: "next_nodes (?h 6) = []"
    by code_simp+
  have "(invokes ?h)\<^sup>*\<^sup>* (ExecuteCall (Suc 2) 0 ''p'' []) (successorCall ?h 2 2 ''p-r'' [])"
    by (rule reach_first_successor[where h = "?h" and r = 0, OF a0 n0])
  then have chain: "(invokes ?h)\<^sup>*\<^sup>* (ExecuteCall (Suc 2) 0 ''p'' [])
      (ParallelCall (Suc 1) 2 ''p-r'' [])"
    by (simp only: sc)
  note t = aggregate_without_successor_panics[where h = "?h" and v = 2 and fuel = 1
      and w = "workflow_of fanout_run" and r = 0 and ?fuel0.0 = "Suc 2" and ?p0.0 = "''p''"
      and ?s0.0 = "[]", OF a g ord out last]
  from t have par: "executeParallel (Suc 1) ?h 2 ''p-r'' [] = Some (Panicked IndexOutOfRange, [])"
    by (rule conjunct1)
  from t r chain have x: "Execute (Suc 2) ?h (workflow_of fanout_run) ''p'' [] =
      Some (Panicked IndexOutOfRange, [])"
    by blast
  from e par chain x show ?thesis by blast
qed

end
